theory Spec2Isabelle
  imports Main "HOL-Library.Word"
begin

unbundle bit_operations_syntax

section \<open>Bytes, errors and buffers\<close>

text \<open>
  The theory embeds the generated codec of \<^verbatim>\<open>common.pb.go\<close>: the three messages
  \<^verbatim>\<open>CommonExtensionConfig\<close>, \<^verbatim>\<open>CommonExtensionConfig_TapDSConfig\<close> and
  \<^verbatim>\<open>AdminConfig\<close> with their \<^verbatim>\<open>Size\<close>, \<^verbatim>\<open>Marshal\<close> and
  \<^verbatim>\<open>Unmarshal\<close> methods, and the helpers \<^verbatim>\<open>sovCommon\<close>,
  \<^verbatim>\<open>encodeVarintCommon\<close> and \<^verbatim>\<open>skipCommon\<close>.

  A Go \<^verbatim>\<open>[]byte\<close> and a Go \<^verbatim>\<open>string\<close> are lists of bytes; a nil slice and an
  empty slice are both the empty list (the code only ever takes the length of such a slice
  or copies it). A \<^verbatim>\<open>uint64\<close> is a \<open>64 word\<close>, a Go \<^verbatim>\<open>int\<close> that is built
  from shifted bytes is a \<open>64 word\<close> read with \<open>sint\<close>; indices into a buffer and lengths
  of slices are natural numbers.
\<close>

type_synonym byte = "8 word"

datatype error =
    ErrInvalidLengthCommon
  | ErrIntOverflowCommon
  | ErrUnexpectedEndOfGroupCommon
  | ErrUnexpectedEOF
  | ErrEndGroupForNonGroup string
  | ErrIllegalTag string int
  | ErrWrongWireType nat string
  | ErrIllegalWireType nat
  | ErrOther string
  | Panic

section \<open>Varints\<close>

text \<open>\<^verbatim>\<open>math_bits.Len64\<close>: the number of bits needed to represent a value, 0 for 0.\<close>

function Len64 :: "64 word \<Rightarrow> nat" where
  "Len64 x = (if x = 0 then 0 else Suc (Len64 (drop_bit 1 x)))"
  by pat_completeness auto
termination
proof (relation "measure unat")
  show "wf (measure unat)" by simp
next
  fix x :: "64 word"
  assume "x \<noteq> 0"
  then have "0 < unat x" by (simp add: unat_gt_0)
  then have "unat x div 2 < unat x" by simp
  then show "(drop_bit 1 x, x) \<in> measure unat"
    by (simp add: drop_bit_eq_div unat_div)
qed

declare Len64.simps [simp del]

definition sovCommon :: "64 word \<Rightarrow> nat" where
  "sovCommon x = (Len64 (x OR 1) + 6) div 7"

text \<open>
  The loop of \<^verbatim>\<open>encodeVarintCommon\<close> after \<^verbatim>\<open>offset -= sovCommon(v)\<close>: it
  writes the 7-bit groups of \<open>v\<close> at \<open>offset\<close>, \<open>offset + 1\<close>, ...; a write outside the
  buffer panics.
\<close>

function encodeVarintCommon_loop :: "byte list \<Rightarrow> nat \<Rightarrow> 64 word \<Rightarrow> error + byte list" where
  "encodeVarintCommon_loop dAtA offset v =
     (if v \<ge> 128 then
        (if offset < length dAtA
         then encodeVarintCommon_loop (dAtA[offset := ucast (v AND 0x7f OR 0x80)]) (offset + 1) (drop_bit 7 v)
         else Inl Panic)
      else
        (if offset < length dAtA then Inr (dAtA[offset := ucast v]) else Inl Panic))"
  by pat_completeness auto
termination
proof (relation "measure (\<lambda>(dAtA, offset, v). unat v)")
  show "wf (measure (\<lambda>(dAtA, offset, v). unat v))" by simp
next
  fix dAtA :: "byte list" and offset :: nat and v :: "64 word"
  assume "128 \<le> v"
  then have "128 \<le> unat v" by (simp add: word_le_nat_alt)
  then have "unat v div 128 < unat v" by simp
  then show "((dAtA[offset := ucast (v AND 0x7f OR 0x80)], offset + 1, drop_bit 7 v), (dAtA, offset, v))
      \<in> measure (\<lambda>(dAtA, offset, v). unat v)"
    by (simp add: drop_bit_eq_div unat_div)
qed

declare encodeVarintCommon_loop.simps [simp del]

definition encodeVarintCommon :: "byte list \<Rightarrow> nat \<Rightarrow> 64 word \<Rightarrow> error + (byte list \<times> nat)" where
  "encodeVarintCommon dAtA offset v =
     (if offset < sovCommon v then Inl Panic
      else (case encodeVarintCommon_loop dAtA (offset - sovCommon v) v of
              Inl e \<Rightarrow> Inl e
            | Inr dAtA' \<Rightarrow> Inr (dAtA', offset - sovCommon v)))"

text \<open>
  The varint reader that every \<^verbatim>\<open>Unmarshal\<close> and \<^verbatim>\<open>skipCommon\<close> inlines:
  \<^verbatim>\<open>for shift := uint(0); ; shift += 7 { ... }\<close>. It returns the value read and the
  index after its last byte.
\<close>

function decode_varint :: "byte list \<Rightarrow> nat \<Rightarrow> nat \<Rightarrow> 64 word \<Rightarrow> error + (64 word \<times> nat)" where
  "decode_varint dAtA iNdEx shift wire =
     (if shift \<ge> 64 then Inl ErrIntOverflowCommon
      else if iNdEx \<ge> length dAtA then Inl ErrUnexpectedEOF
      else
        (let b = dAtA ! iNdEx;
             wire' = wire OR push_bit shift (ucast (b AND 0x7F))
         in if b < 0x80 then Inr (wire', iNdEx + 1)
            else decode_varint dAtA (iNdEx + 1) (shift + 7) wire'))"
  by pat_completeness auto
termination
  by (relation "measure (\<lambda>(dAtA, iNdEx, shift, wire). 70 - shift)") auto

declare decode_varint.simps [simp del]

lemma decode_varint_bounds:
  "decode_varint dAtA iNdEx shift wire = Inr (v, j) \<Longrightarrow> iNdEx < j \<and> j \<le> length dAtA"
proof (induction dAtA iNdEx shift wire rule: decode_varint.induct)
  case (1 dAtA iNdEx shift wire)
  from "1.prems" have a: "\<not> 64 \<le> shift" "\<not> length dAtA \<le> iNdEx"
    by (auto simp: decode_varint.simps [of dAtA iNdEx shift wire] split: if_splits)
  show ?case
  proof (cases "dAtA ! iNdEx < 0x80")
    case True
    with a "1.prems" show ?thesis
      by (auto simp: decode_varint.simps [of dAtA iNdEx shift wire] Let_def)
  next
    case False
    with a "1.prems" have "decode_varint dAtA (iNdEx + 1) (shift + 7)
        (wire OR push_bit shift (ucast (dAtA ! iNdEx AND 0x7F))) = Inr (v, j)"
      by (simp add: decode_varint.simps [of dAtA iNdEx shift wire] Let_def)
    with "1.IH" [OF a refl refl False] show ?thesis by simp
  qed
qed

section \<open>Length prefixes and unknown fields\<close>

text \<open>
  \<^verbatim>\<open>postIndex := iNdEx + msglen\<close> on Go's 64-bit \<^verbatim>\<open>int\<close>, with the checks around it:
  a negative length is refused, and so is a sum that wraps around to a negative value,
  which for an index below \<open>2 ^ 63\<close> and a length that is not negative happens exactly when
  the sum reaches \<open>2 ^ 63\<close>.
\<close>

definition add_length :: "nat \<Rightarrow> 64 word \<Rightarrow> error + nat" where
  "add_length iNdEx msglen =
     (if sint msglen < 0 then Inl ErrInvalidLengthCommon
      else if int iNdEx + sint msglen \<ge> 2 ^ 63 then Inl ErrInvalidLengthCommon
      else Inr (iNdEx + nat (sint msglen)))"

text \<open>
  The length prefix of a length-delimited field, as each \<^verbatim>\<open>case\<close> of the three
  \<^verbatim>\<open>Unmarshal\<close> methods reads it: the varint, then the three checks on
  \<^verbatim>\<open>postIndex\<close>. It returns the index of the payload and \<^verbatim>\<open>postIndex\<close>.
\<close>

definition read_length :: "byte list \<Rightarrow> nat \<Rightarrow> error + (nat \<times> nat)" where
  "read_length dAtA iNdEx =
     (case decode_varint dAtA iNdEx 0 0 of
        Inl e \<Rightarrow> Inl e
      | Inr (msglen, iNdEx') \<Rightarrow>
          (case add_length iNdEx' msglen of
             Inl e \<Rightarrow> Inl e
           | Inr postIndex \<Rightarrow>
               if postIndex > length dAtA then Inl ErrUnexpectedEOF
               else Inr (iNdEx', postIndex)))"

text \<open>\<^verbatim>\<open>dAtA[iNdEx:postIndex]\<close>\<close>

definition slice :: "byte list \<Rightarrow> nat \<Rightarrow> nat \<Rightarrow> byte list" where
  "slice dAtA iNdEx postIndex = take (postIndex - iNdEx) (drop iNdEx dAtA)"

text \<open>
  The \<^verbatim>\<open>switch wireType\<close> of \<^verbatim>\<open>skipCommon\<close> with the check
  \<^verbatim>\<open>if iNdEx < 0\<close> that follows it: the new index and the new depth. Wire type 0
  runs the varint loop without keeping the value. Only the addition of a length can wrap
  around: the index is at most the length of the buffer when 8 or 4 is added to it.
\<close>

definition skip_step :: "byte list \<Rightarrow> nat \<Rightarrow> nat \<Rightarrow> nat \<Rightarrow> error + (nat \<times> nat)" where
  "skip_step dAtA iNdEx depth wireType =
     (if wireType = 0 then
        (case decode_varint dAtA iNdEx 0 0 of
           Inl e \<Rightarrow> Inl e
         | Inr (v, iNdEx') \<Rightarrow> Inr (iNdEx', depth))
      else if wireType = 1 then Inr (iNdEx + 8, depth)
      else if wireType = 2 then
        (case decode_varint dAtA iNdEx 0 0 of
           Inl e \<Rightarrow> Inl e
         | Inr (len, iNdEx') \<Rightarrow>
             (case add_length iNdEx' len of
                Inl e \<Rightarrow> Inl e
              | Inr iNdEx'' \<Rightarrow> Inr (iNdEx'', depth)))
      else if wireType = 3 then Inr (iNdEx, depth + 1)
      else if wireType = 4 then
        (if depth = 0 then Inl ErrUnexpectedEndOfGroupCommon else Inr (iNdEx, depth - 1))
      else if wireType = 5 then Inr (iNdEx + 4, depth)
      else Inl (ErrIllegalWireType wireType))"

lemma add_length_mono: "add_length i w = Inr j \<Longrightarrow> i \<le> j"
  by (auto simp: add_length_def split: if_splits)

lemma skip_step_mono: "skip_step dAtA i depth wt = Inr (j, depth') \<Longrightarrow> i \<le> j"
  by (auto simp: skip_step_def split: if_splits sum.splits
      dest!: decode_varint_bounds add_length_mono)

function skipCommon_loop :: "byte list \<Rightarrow> nat \<Rightarrow> nat \<Rightarrow> error + nat" where
  "skipCommon_loop dAtA iNdEx depth =
     (if iNdEx < length dAtA then
        (case decode_varint dAtA iNdEx 0 0 of
           Inl e \<Rightarrow> Inl e
         | Inr (wire, iNdEx') \<Rightarrow>
             (case skip_step dAtA iNdEx' depth (unat (wire AND 0x7)) of
                Inl e \<Rightarrow> Inl e
              | Inr (iNdEx'', depth') \<Rightarrow>
                  if depth' = 0 then Inr iNdEx''
                  else skipCommon_loop dAtA iNdEx'' depth'))
      else Inl ErrUnexpectedEOF)"
  by pat_completeness auto
termination
proof (relation "measure (\<lambda>(dAtA, iNdEx, depth). length dAtA - iNdEx)")
  show "wf (measure (\<lambda>(dAtA, iNdEx, depth). length dAtA - iNdEx))" by simp
next
  fix dAtA :: "byte list" and iNdEx depth :: nat and x2 :: "64 word \<times> nat"
    and wire :: "64 word" and iNdEx' :: nat and x2a :: "nat \<times> nat" and iNdEx'' depth' :: nat
  assume "iNdEx < length dAtA" "decode_varint dAtA iNdEx 0 0 = Inr x2" "(wire, iNdEx') = x2"
    "skip_step dAtA iNdEx' depth (unat (wire AND 7)) = Inr x2a" "(iNdEx'', depth') = x2a"
  then have "iNdEx < iNdEx'" "iNdEx' \<le> iNdEx''"
    using decode_varint_bounds [of dAtA iNdEx 0 0 wire iNdEx']
      skip_step_mono [of dAtA iNdEx' depth "unat (wire AND 7)" iNdEx'' depth']
    by auto
  with \<open>iNdEx < length dAtA\<close>
  show "((dAtA, iNdEx'', depth'), (dAtA, iNdEx, depth))
      \<in> measure (\<lambda>(dAtA, iNdEx, depth). length dAtA - iNdEx)"
    by simp
qed

declare skipCommon_loop.simps [simp del]

definition skipCommon :: "byte list \<Rightarrow> error + nat" where
  "skipCommon dAtA = skipCommon_loop dAtA 0 0"

text \<open>
  The \<^verbatim>\<open>default\<close> branch of the three \<^verbatim>\<open>Unmarshal\<close> methods up to the
  \<^verbatim>\<open>append\<close>: the number of bytes of the field that starts at \<^verbatim>\<open>preIndex\<close>.
  \<^verbatim>\<open>skipCommon\<close> never returns a negative count; \<^verbatim>\<open>iNdEx + skippy\<close> is
  negative when the 64-bit sum wraps around.
\<close>

definition skip_unknown :: "byte list \<Rightarrow> nat \<Rightarrow> error + nat" where
  "skip_unknown dAtA preIndex =
     (case skipCommon (drop preIndex dAtA) of
        Inl e \<Rightarrow> Inl e
      | Inr skippy \<Rightarrow>
          if int preIndex + int skippy \<ge> 2 ^ 63 then Inl ErrInvalidLengthCommon
          else if preIndex + skippy > length dAtA then Inl ErrUnexpectedEOF
          else Inr skippy)"

text \<open>\<^verbatim>\<open>fieldNum := int32(wire >> 3)\<close> and \<^verbatim>\<open>wireType := int(wire & 0x7)\<close>\<close>

definition fieldNum_of :: "64 word \<Rightarrow> int" where
  "fieldNum_of wire = sint (ucast (drop_bit 3 wire) :: 32 word)"

definition wireType_of :: "64 word \<Rightarrow> nat" where
  "wireType_of wire = unat (wire AND 0x7)"

lemma skipCommon_loop_bounds: "skipCommon_loop dAtA iNdEx depth = Inr n \<Longrightarrow> iNdEx < n"
proof (induction dAtA iNdEx depth rule: skipCommon_loop.induct)
  case (1 dAtA iNdEx depth)
  from "1.prems" obtain wire i1 i2 depth' where
    lt: "iNdEx < length dAtA" and
    dv: "decode_varint dAtA iNdEx 0 0 = Inr (wire, i1)" and
    st: "skip_step dAtA i1 depth (unat (wire AND 0x7)) = Inr (i2, depth')" and
    res: "(if depth' = 0 then Inr i2 else skipCommon_loop dAtA i2 depth') = Inr n"
    by (auto simp: skipCommon_loop.simps [of dAtA iNdEx depth] split: if_splits sum.splits)
  from dv st have le: "iNdEx < i1" "i1 \<le> i2"
    by (auto dest: decode_varint_bounds skip_step_mono)
  show ?case
  proof (cases "depth' = 0")
    case True
    with res le show ?thesis by simp
  next
    case False
    with res have "skipCommon_loop dAtA i2 depth' = Inr n" by simp
    from "1.IH" [OF lt dv refl st refl False this] le show ?thesis by simp
  qed
qed

lemma skip_unknown_bounds:
  "skip_unknown dAtA preIndex = Inr skippy \<Longrightarrow> 0 < skippy \<and> preIndex + skippy \<le> length dAtA"
  by (auto simp: skip_unknown_def skipCommon_def split: sum.splits if_splits
      dest: skipCommon_loop_bounds)

lemma read_length_bounds:
  "read_length dAtA iNdEx = Inr (i, postIndex) \<Longrightarrow>
     iNdEx < i \<and> i \<le> postIndex \<and> postIndex \<le> length dAtA"
  by (auto simp: read_length_def split: sum.splits if_splits
      dest: decode_varint_bounds add_length_mono)

section \<open>Writing into the pre-sized buffer\<close>

text \<open>
  \<^verbatim>\<open>MarshalToSizedBuffer\<close> fills its buffer from the back: \<open>i\<close> starts at
  \<^verbatim>\<open>len(dAtA)\<close> and moves down. \<^verbatim>\<open>i -= len(src); copy(dAtA[i:], src)\<close>
  panics when \<open>i\<close> becomes negative, since \<^verbatim>\<open>dAtA[i:]\<close> is then out of range.
\<close>

definition copy_back :: "byte list \<Rightarrow> nat \<Rightarrow> byte list \<Rightarrow> error + (byte list \<times> nat)" where
  "copy_back dAtA i src =
     (if i < length src \<or> length dAtA < i - length src then Inl Panic
      else Inr (take (i - length src) dAtA
                  @ take (length dAtA - (i - length src)) src
                  @ drop (i - length src + length src) dAtA,
                i - length src))"

text \<open>\<^verbatim>\<open>i--; dAtA[i] = b\<close>\<close>

definition put_back :: "byte list \<Rightarrow> nat \<Rightarrow> byte \<Rightarrow> error + (byte list \<times> nat)" where
  "put_back dAtA i b =
     (if i = 0 \<or> length dAtA \<le> i - 1 then Inl Panic
      else Inr (dAtA[i - 1 := b], i - 1))"

text \<open>
  A length-delimited field whose payload already stands at \<open>i\<close>: the length prefix
  \<^verbatim>\<open>i = encodeVarintCommon(dAtA, i, uint64(size))\<close>, then the tag byte.
\<close>

definition put_header :: "byte list \<Rightarrow> nat \<Rightarrow> nat \<Rightarrow> byte \<Rightarrow> error + (byte list \<times> nat)" where
  "put_header dAtA i sz tag =
     (case encodeVarintCommon dAtA i (word_of_nat sz) of
        Inl e \<Rightarrow> Inl e
      | Inr (dAtA', i') \<Rightarrow> put_back dAtA' i' tag)"

text \<open>
  The body of every \<^verbatim>\<open>Marshal\<close> method: a buffer of \<^verbatim>\<open>size\<close> zero bytes is
  filled by \<^verbatim>\<open>MarshalToSizedBuffer\<close> and its first \<open>n\<close> bytes are returned.
\<close>

definition Marshal_with :: "nat \<Rightarrow> (byte list \<Rightarrow> error + (byte list \<times> nat)) \<Rightarrow> error + byte list" where
  "Marshal_with sz fill =
     (case fill (replicate sz 0) of
        Inl e \<Rightarrow> Inl e
      | Inr (dAtA, n) \<Rightarrow> if n \<le> length dAtA then Inr (take n dAtA) else Inl Panic)"

section \<open>AdminConfig\<close>

text \<open>
  The fields \<^verbatim>\<open>XXX_NoUnkeyedLiteral\<close> and \<^verbatim>\<open>XXX_sizecache\<close> are left out: no
  function of the file reads or writes them.
\<close>

record AdminConfig =
  ConfigId :: "byte list"
  AdminConfig_XXX_unrecognized :: "byte list"

definition AdminConfig_new :: AdminConfig where
  "AdminConfig_new = \<lparr>ConfigId = [], AdminConfig_XXX_unrecognized = []\<rparr>"

text \<open>The receiver of a method is a pointer: \<open>None\<close> is the nil receiver.\<close>

definition AdminConfig_GetConfigId :: "AdminConfig option \<Rightarrow> byte list" where
  "AdminConfig_GetConfigId m = (case m of Some m' \<Rightarrow> ConfigId m' | None \<Rightarrow> [])"

definition AdminConfig_Size :: "AdminConfig option \<Rightarrow> nat" where
  "AdminConfig_Size m =
     (case m of
        None \<Rightarrow> 0
      | Some m' \<Rightarrow>
          (let l = length (ConfigId m');
               n = (if l > 0 then 1 + l + sovCommon (word_of_nat l) else 0)
           in if AdminConfig_XXX_unrecognized m' \<noteq> []
              then n + length (AdminConfig_XXX_unrecognized m') else n))"

definition AdminConfig_MarshalToSizedBuffer ::
    "AdminConfig \<Rightarrow> byte list \<Rightarrow> error + (byte list \<times> nat)" where
  "AdminConfig_MarshalToSizedBuffer m dAtA =
     (case (if AdminConfig_XXX_unrecognized m \<noteq> []
            then copy_back dAtA (length dAtA) (AdminConfig_XXX_unrecognized m)
            else Inr (dAtA, length dAtA)) of
        Inl e \<Rightarrow> Inl e
      | Inr (dAtA1, i1) \<Rightarrow>
          (case (if length (ConfigId m) > 0
                 then (case copy_back dAtA1 i1 (ConfigId m) of
                         Inl e \<Rightarrow> Inl e
                       | Inr (dAtA2, i2) \<Rightarrow> put_header dAtA2 i2 (length (ConfigId m)) 0xa)
                 else Inr (dAtA1, i1)) of
             Inl e \<Rightarrow> Inl e
           | Inr (dAtA3, i3) \<Rightarrow> Inr (dAtA3, length dAtA - i3)))"

definition AdminConfig_Marshal :: "AdminConfig \<Rightarrow> error + byte list" where
  "AdminConfig_Marshal m =
     Marshal_with (AdminConfig_Size (Some m)) (AdminConfig_MarshalToSizedBuffer m)"

function AdminConfig_Unmarshal_loop :: "AdminConfig \<Rightarrow> byte list \<Rightarrow> nat \<Rightarrow> error + AdminConfig" where
  "AdminConfig_Unmarshal_loop m dAtA iNdEx =
     (if iNdEx < length dAtA then
        (case decode_varint dAtA iNdEx 0 0 of
           Inl e \<Rightarrow> Inl e
         | Inr (wire, iNdEx') \<Rightarrow>
             if wireType_of wire = 4 then Inl (ErrEndGroupForNonGroup ''AdminConfig'')
             else if fieldNum_of wire \<le> 0 then Inl (ErrIllegalTag ''AdminConfig'' (fieldNum_of wire))
             else if fieldNum_of wire = 1 then
               (if wireType_of wire \<noteq> 2 then Inl (ErrWrongWireType (wireType_of wire) ''ConfigId'')
                else
                  (case read_length dAtA iNdEx' of
                     Inl e \<Rightarrow> Inl e
                   | Inr (iNdEx'', postIndex) \<Rightarrow>
                       AdminConfig_Unmarshal_loop
                         (m\<lparr>ConfigId := slice dAtA iNdEx'' postIndex\<rparr>) dAtA postIndex))
             else
               (case skip_unknown dAtA iNdEx of
                  Inl e \<Rightarrow> Inl e
                | Inr skippy \<Rightarrow>
                    AdminConfig_Unmarshal_loop
                      (m\<lparr>AdminConfig_XXX_unrecognized :=
                           AdminConfig_XXX_unrecognized m @ slice dAtA iNdEx (iNdEx + skippy)\<rparr>)
                      dAtA (iNdEx + skippy)))
      else if iNdEx > length dAtA then Inl ErrUnexpectedEOF
      else Inr m)"
  by pat_completeness auto
termination
  by (relation "measure (\<lambda>(m, dAtA, iNdEx). length dAtA - iNdEx)")
    (auto dest!: decode_varint_bounds read_length_bounds skip_unknown_bounds)

declare AdminConfig_Unmarshal_loop.simps [simp del]

definition AdminConfig_Unmarshal :: "AdminConfig \<Rightarrow> byte list \<Rightarrow> error + AdminConfig" where
  "AdminConfig_Unmarshal m dAtA = AdminConfig_Unmarshal_loop m dAtA 0"

section \<open>The message types of other packages\<close>

text \<open>
  \<^verbatim>\<open>v3.TapConfig\<close> and \<^verbatim>\<open>v4alpha.ConfigSource\<close> are generated in other packages.
  The codec uses four things of each: \<^verbatim>\<open>Size\<close>, \<^verbatim>\<open>MarshalToSizedBuffer\<close>,
  \<^verbatim>\<open>Unmarshal\<close> (into an existing value) and the empty value \<^verbatim>\<open>&T{}\<close>. They are
  parameters of everything below.
\<close>

record 'a ext_codec =
  ext_Size :: "'a \<Rightarrow> nat"
  ext_Marshal :: "'a \<Rightarrow> error + byte list"
  ext_Unmarshal :: "'a \<Rightarrow> byte list \<Rightarrow> error + 'a"
  ext_new :: "'a"

text \<open>
  Modelled from the spec: \<^verbatim>\<open>MarshalToSizedBuffer\<close> of \<^verbatim>\<open>v3.TapConfig\<close> and of
  \<^verbatim>\<open>v4alpha.ConfigSource\<close>, which are not in this file. As the spec's contract of
  Encode has it, the method writes the encoding of the message (\<open>ext_Marshal\<close>) at the
  end of the buffer it is given and returns the number of bytes written, or the error of
  the encoding.
\<close>

definition ext_MarshalToSizedBuffer ::
    "'a ext_codec \<Rightarrow> 'a \<Rightarrow> byte list \<Rightarrow> error + (byte list \<times> nat)" where
  "ext_MarshalToSizedBuffer c x dAtA =
     (case ext_Marshal c x of
        Inl e \<Rightarrow> Inl e
      | Inr bs \<Rightarrow>
          (case copy_back dAtA (length dAtA) bs of
             Inl e \<Rightarrow> Inl e
           | Inr (dAtA', i) \<Rightarrow> Inr (dAtA', length bs)))"

text \<open>
  A nested message as a field: \<^verbatim>\<open>size, err := x.MarshalToSizedBuffer(dAtA[:i])\<close>,
  \<^verbatim>\<open>i -= size\<close>, then the length prefix and the tag byte. The slice
  \<^verbatim>\<open>dAtA[:i]\<close> shares its bytes with \<^verbatim>\<open>dAtA\<close>.
\<close>

definition put_nested ::
    "(byte list \<Rightarrow> error + (byte list \<times> nat)) \<Rightarrow> byte list \<Rightarrow> nat \<Rightarrow> byte
       \<Rightarrow> error + (byte list \<times> nat)" where
  "put_nested fill dAtA i tag =
     (case fill (take i dAtA) of
        Inl e \<Rightarrow> Inl e
      | Inr (sub, sz) \<Rightarrow>
          if i < sz then Inl Panic
          else put_header (sub @ drop i dAtA) (i - sz) sz tag)"

section \<open>CommonExtensionConfig_TapDSConfig\<close>

record 'cs CommonExtensionConfig_TapDSConfig =
  ConfigSource :: "'cs option"
  Name :: "byte list"
  TapDSConfig_XXX_unrecognized :: "byte list"

definition CommonExtensionConfig_TapDSConfig_new :: "'cs CommonExtensionConfig_TapDSConfig" where
  "CommonExtensionConfig_TapDSConfig_new =
     \<lparr>ConfigSource = None, Name = [], TapDSConfig_XXX_unrecognized = []\<rparr>"

definition CommonExtensionConfig_TapDSConfig_GetConfigSource ::
    "'cs CommonExtensionConfig_TapDSConfig option \<Rightarrow> 'cs option" where
  "CommonExtensionConfig_TapDSConfig_GetConfigSource m =
     (case m of Some m' \<Rightarrow> ConfigSource m' | None \<Rightarrow> None)"

definition CommonExtensionConfig_TapDSConfig_GetName ::
    "'cs CommonExtensionConfig_TapDSConfig option \<Rightarrow> byte list" where
  "CommonExtensionConfig_TapDSConfig_GetName m =
     (case m of Some m' \<Rightarrow> Name m' | None \<Rightarrow> [])"

definition CommonExtensionConfig_TapDSConfig_Size ::
    "'cs ext_codec \<Rightarrow> 'cs CommonExtensionConfig_TapDSConfig option \<Rightarrow> nat" where
  "CommonExtensionConfig_TapDSConfig_Size cs m =
     (case m of
        None \<Rightarrow> 0
      | Some m' \<Rightarrow>
          (let n1 = (case ConfigSource m' of
                       Some x \<Rightarrow> (let l = ext_Size cs x in 1 + l + sovCommon (word_of_nat l))
                     | None \<Rightarrow> 0);
               l = length (Name m');
               n2 = (if l > 0 then n1 + (1 + l + sovCommon (word_of_nat l)) else n1)
           in if TapDSConfig_XXX_unrecognized m' \<noteq> []
              then n2 + length (TapDSConfig_XXX_unrecognized m') else n2))"

definition CommonExtensionConfig_TapDSConfig_MarshalToSizedBuffer ::
    "'cs ext_codec \<Rightarrow> 'cs CommonExtensionConfig_TapDSConfig \<Rightarrow> byte list
       \<Rightarrow> error + (byte list \<times> nat)" where
  "CommonExtensionConfig_TapDSConfig_MarshalToSizedBuffer cs m dAtA =
     (case (if TapDSConfig_XXX_unrecognized m \<noteq> []
            then copy_back dAtA (length dAtA) (TapDSConfig_XXX_unrecognized m)
            else Inr (dAtA, length dAtA)) of
        Inl e \<Rightarrow> Inl e
      | Inr (dAtA1, i1) \<Rightarrow>
          (case (if length (Name m) > 0
                 then (case copy_back dAtA1 i1 (Name m) of
                         Inl e \<Rightarrow> Inl e
                       | Inr (dAtA2, i2) \<Rightarrow> put_header dAtA2 i2 (length (Name m)) 0x12)
                 else Inr (dAtA1, i1)) of
             Inl e \<Rightarrow> Inl e
           | Inr (dAtA3, i3) \<Rightarrow>
               (case (case ConfigSource m of
                        Some x \<Rightarrow> put_nested (ext_MarshalToSizedBuffer cs x) dAtA3 i3 0xa
                      | None \<Rightarrow> Inr (dAtA3, i3)) of
                  Inl e \<Rightarrow> Inl e
                | Inr (dAtA4, i4) \<Rightarrow> Inr (dAtA4, length dAtA - i4))))"

definition CommonExtensionConfig_TapDSConfig_Marshal ::
    "'cs ext_codec \<Rightarrow> 'cs CommonExtensionConfig_TapDSConfig \<Rightarrow> error + byte list" where
  "CommonExtensionConfig_TapDSConfig_Marshal cs m =
     Marshal_with (CommonExtensionConfig_TapDSConfig_Size cs (Some m))
       (CommonExtensionConfig_TapDSConfig_MarshalToSizedBuffer cs m)"

function CommonExtensionConfig_TapDSConfig_Unmarshal_loop ::
    "'cs ext_codec \<Rightarrow> 'cs CommonExtensionConfig_TapDSConfig \<Rightarrow> byte list \<Rightarrow> nat
       \<Rightarrow> error + 'cs CommonExtensionConfig_TapDSConfig" where
  "CommonExtensionConfig_TapDSConfig_Unmarshal_loop cs m dAtA iNdEx =
     (if iNdEx < length dAtA then
        (case decode_varint dAtA iNdEx 0 0 of
           Inl e \<Rightarrow> Inl e
         | Inr (wire, iNdEx') \<Rightarrow>
             if wireType_of wire = 4 then Inl (ErrEndGroupForNonGroup ''TapDSConfig'')
             else if fieldNum_of wire \<le> 0 then Inl (ErrIllegalTag ''TapDSConfig'' (fieldNum_of wire))
             else if fieldNum_of wire = 1 then
               (if wireType_of wire \<noteq> 2 then Inl (ErrWrongWireType (wireType_of wire) ''ConfigSource'')
                else
                  (case read_length dAtA iNdEx' of
                     Inl e \<Rightarrow> Inl e
                   | Inr (iNdEx'', postIndex) \<Rightarrow>
                       (case ext_Unmarshal cs
                               (case ConfigSource m of None \<Rightarrow> ext_new cs | Some x \<Rightarrow> x)
                               (slice dAtA iNdEx'' postIndex) of
                          Inl e \<Rightarrow> Inl e
                        | Inr x \<Rightarrow>
                            CommonExtensionConfig_TapDSConfig_Unmarshal_loop cs
                              (m\<lparr>ConfigSource := Some x\<rparr>) dAtA postIndex)))
             else if fieldNum_of wire = 2 then
               (if wireType_of wire \<noteq> 2 then Inl (ErrWrongWireType (wireType_of wire) ''Name'')
                else
                  (case read_length dAtA iNdEx' of
                     Inl e \<Rightarrow> Inl e
                   | Inr (iNdEx'', postIndex) \<Rightarrow>
                       CommonExtensionConfig_TapDSConfig_Unmarshal_loop cs
                         (m\<lparr>Name := slice dAtA iNdEx'' postIndex\<rparr>) dAtA postIndex))
             else
               (case skip_unknown dAtA iNdEx of
                  Inl e \<Rightarrow> Inl e
                | Inr skippy \<Rightarrow>
                    CommonExtensionConfig_TapDSConfig_Unmarshal_loop cs
                      (m\<lparr>TapDSConfig_XXX_unrecognized :=
                           TapDSConfig_XXX_unrecognized m @ slice dAtA iNdEx (iNdEx + skippy)\<rparr>)
                      dAtA (iNdEx + skippy)))
      else if iNdEx > length dAtA then Inl ErrUnexpectedEOF
      else Inr m)"
  by pat_completeness auto
termination
  by (relation "measure (\<lambda>(cs, m, dAtA, iNdEx). length dAtA - iNdEx)")
    (auto dest!: decode_varint_bounds read_length_bounds skip_unknown_bounds)

declare CommonExtensionConfig_TapDSConfig_Unmarshal_loop.simps [simp del]

definition CommonExtensionConfig_TapDSConfig_Unmarshal ::
    "'cs ext_codec \<Rightarrow> 'cs CommonExtensionConfig_TapDSConfig \<Rightarrow> byte list
       \<Rightarrow> error + 'cs CommonExtensionConfig_TapDSConfig" where
  "CommonExtensionConfig_TapDSConfig_Unmarshal cs m dAtA =
     CommonExtensionConfig_TapDSConfig_Unmarshal_loop cs m dAtA 0"

section \<open>CommonExtensionConfig and its oneof\<close>

text \<open>
  The interface \<^verbatim>\<open>isCommonExtensionConfig_ConfigType\<close> is implemented by the pointers
  to the three wrapper structs; each wrapper holds a pointer to its message, which may be
  nil. A value of the interface is a pointer to a wrapper, given here by the field of the
  wrapper it points to, or the nil pointer of one of the three pointer types
  (\<^verbatim>\<open>(*CommonExtensionConfig_AdminConfig)(nil)\<close> and its two siblings). The field
  \<^verbatim>\<open>ConfigType\<close> holds such a value or is the nil interface (\<open>None\<close>).
\<close>

datatype ('tc, 'cs) isCommonExtensionConfig_ConfigType =
    CommonExtensionConfig_AdminConfig "AdminConfig option"
  | CommonExtensionConfig_StaticConfig "'tc option"
  | CommonExtensionConfig_TapdsConfig "'cs CommonExtensionConfig_TapDSConfig option"
  | CommonExtensionConfig_AdminConfig_nil
  | CommonExtensionConfig_StaticConfig_nil
  | CommonExtensionConfig_TapdsConfig_nil

record ('tc, 'cs) CommonExtensionConfig =
  ConfigType :: "('tc, 'cs) isCommonExtensionConfig_ConfigType option"
  XXX_unrecognized :: "byte list"

definition CommonExtensionConfig_new :: "('tc, 'cs) CommonExtensionConfig" where
  "CommonExtensionConfig_new = \<lparr>ConfigType = None, XXX_unrecognized = []\<rparr>"

definition GetConfigType ::
    "('tc, 'cs) CommonExtensionConfig option \<Rightarrow> ('tc, 'cs) isCommonExtensionConfig_ConfigType option" where
  "GetConfigType m = (case m of Some m' \<Rightarrow> ConfigType m' | None \<Rightarrow> None)"

text \<open>
  The getters of the oneof assert the type of the pointer and read the field of the wrapper
  through it: \<^verbatim>\<open>if x, ok := m.GetConfigType().(*CommonExtensionConfig_AdminConfig); ok
  { return x.AdminConfig }\<close>. The assertion succeeds for the nil pointer of that type too,
  and reading the field through it panics.
\<close>

definition GetAdminConfig ::
    "('tc, 'cs) CommonExtensionConfig option \<Rightarrow> error + AdminConfig option" where
  "GetAdminConfig m =
     (case GetConfigType m of
        Some (CommonExtensionConfig_AdminConfig x) \<Rightarrow> Inr x
      | Some CommonExtensionConfig_AdminConfig_nil \<Rightarrow> Inl Panic
      | _ \<Rightarrow> Inr None)"

definition GetStaticConfig :: "('tc, 'cs) CommonExtensionConfig option \<Rightarrow> error + 'tc option" where
  "GetStaticConfig m =
     (case GetConfigType m of
        Some (CommonExtensionConfig_StaticConfig x) \<Rightarrow> Inr x
      | Some CommonExtensionConfig_StaticConfig_nil \<Rightarrow> Inl Panic
      | _ \<Rightarrow> Inr None)"

definition GetTapdsConfig ::
    "('tc, 'cs) CommonExtensionConfig option
       \<Rightarrow> error + 'cs CommonExtensionConfig_TapDSConfig option" where
  "GetTapdsConfig m =
     (case GetConfigType m of
        Some (CommonExtensionConfig_TapdsConfig x) \<Rightarrow> Inr x
      | Some CommonExtensionConfig_TapdsConfig_nil \<Rightarrow> Inl Panic
      | _ \<Rightarrow> Inr None)"

text \<open>
  The \<^verbatim>\<open>Size\<close> methods of the three wrappers. The receiver is a pointer to the
  wrapper (\<open>None\<close> when nil), the wrapper's field a pointer to the message.
\<close>

definition CommonExtensionConfig_AdminConfig_Size :: "AdminConfig option option \<Rightarrow> nat" where
  "CommonExtensionConfig_AdminConfig_Size m =
     (case m of
        None \<Rightarrow> 0
      | Some None \<Rightarrow> 0
      | Some (Some x) \<Rightarrow> (let l = AdminConfig_Size (Some x) in 1 + l + sovCommon (word_of_nat l)))"

definition CommonExtensionConfig_StaticConfig_Size :: "'tc ext_codec \<Rightarrow> 'tc option option \<Rightarrow> nat" where
  "CommonExtensionConfig_StaticConfig_Size tc m =
     (case m of
        None \<Rightarrow> 0
      | Some None \<Rightarrow> 0
      | Some (Some x) \<Rightarrow> (let l = ext_Size tc x in 1 + l + sovCommon (word_of_nat l)))"

definition CommonExtensionConfig_TapdsConfig_Size ::
    "'cs ext_codec \<Rightarrow> 'cs CommonExtensionConfig_TapDSConfig option option \<Rightarrow> nat" where
  "CommonExtensionConfig_TapdsConfig_Size cs m =
     (case m of
        None \<Rightarrow> 0
      | Some None \<Rightarrow> 0
      | Some (Some x) \<Rightarrow>
          (let l = CommonExtensionConfig_TapDSConfig_Size cs (Some x)
           in 1 + l + sovCommon (word_of_nat l)))"

text \<open>\<^verbatim>\<open>m.ConfigType.Size()\<close>: the call through the interface.\<close>

definition isCommonExtensionConfig_ConfigType_Size ::
    "'tc ext_codec \<Rightarrow> 'cs ext_codec \<Rightarrow> ('tc, 'cs) isCommonExtensionConfig_ConfigType \<Rightarrow> nat" where
  "isCommonExtensionConfig_ConfigType_Size tc cs v =
     (case v of
        CommonExtensionConfig_AdminConfig x \<Rightarrow> CommonExtensionConfig_AdminConfig_Size (Some x)
      | CommonExtensionConfig_StaticConfig x \<Rightarrow> CommonExtensionConfig_StaticConfig_Size tc (Some x)
      | CommonExtensionConfig_TapdsConfig x \<Rightarrow> CommonExtensionConfig_TapdsConfig_Size cs (Some x)
      | CommonExtensionConfig_AdminConfig_nil \<Rightarrow> CommonExtensionConfig_AdminConfig_Size None
      | CommonExtensionConfig_StaticConfig_nil \<Rightarrow> CommonExtensionConfig_StaticConfig_Size tc None
      | CommonExtensionConfig_TapdsConfig_nil \<Rightarrow> CommonExtensionConfig_TapdsConfig_Size cs None)"

definition CommonExtensionConfig_Size ::
    "'tc ext_codec \<Rightarrow> 'cs ext_codec \<Rightarrow> ('tc, 'cs) CommonExtensionConfig option \<Rightarrow> nat" where
  "CommonExtensionConfig_Size tc cs m =
     (case m of
        None \<Rightarrow> 0
      | Some m' \<Rightarrow>
          (let n = (case ConfigType m' of
                      Some v \<Rightarrow> isCommonExtensionConfig_ConfigType_Size tc cs v
                    | None \<Rightarrow> 0)
           in if XXX_unrecognized m' \<noteq> [] then n + length (XXX_unrecognized m') else n))"

text \<open>
  \<^verbatim>\<open>MarshalToSizedBuffer\<close> of the three wrappers: the nested message, its length and
  the tag byte of the branch, or nothing when the wrapper's field is nil. The receiver is
  a pointer to the wrapper, as for \<^verbatim>\<open>Size\<close>; the method has no test of it, and
  reading the field through the nil pointer panics.
\<close>

definition CommonExtensionConfig_AdminConfig_MarshalToSizedBuffer ::
    "AdminConfig option option \<Rightarrow> byte list \<Rightarrow> error + (byte list \<times> nat)" where
  "CommonExtensionConfig_AdminConfig_MarshalToSizedBuffer m dAtA =
     (case (case m of
              None \<Rightarrow> Inl Panic
            | Some None \<Rightarrow> Inr (dAtA, length dAtA)
            | Some (Some x) \<Rightarrow>
                put_nested (AdminConfig_MarshalToSizedBuffer x) dAtA (length dAtA) 0xa) of
        Inl e \<Rightarrow> Inl e
      | Inr (dAtA', i) \<Rightarrow> Inr (dAtA', length dAtA - i))"

definition CommonExtensionConfig_StaticConfig_MarshalToSizedBuffer ::
    "'tc ext_codec \<Rightarrow> 'tc option option \<Rightarrow> byte list \<Rightarrow> error + (byte list \<times> nat)" where
  "CommonExtensionConfig_StaticConfig_MarshalToSizedBuffer tc m dAtA =
     (case (case m of
              None \<Rightarrow> Inl Panic
            | Some None \<Rightarrow> Inr (dAtA, length dAtA)
            | Some (Some x) \<Rightarrow>
                put_nested (ext_MarshalToSizedBuffer tc x) dAtA (length dAtA) 0x12) of
        Inl e \<Rightarrow> Inl e
      | Inr (dAtA', i) \<Rightarrow> Inr (dAtA', length dAtA - i))"

definition CommonExtensionConfig_TapdsConfig_MarshalToSizedBuffer ::
    "'cs ext_codec \<Rightarrow> 'cs CommonExtensionConfig_TapDSConfig option option \<Rightarrow> byte list
       \<Rightarrow> error + (byte list \<times> nat)" where
  "CommonExtensionConfig_TapdsConfig_MarshalToSizedBuffer cs m dAtA =
     (case (case m of
              None \<Rightarrow> Inl Panic
            | Some None \<Rightarrow> Inr (dAtA, length dAtA)
            | Some (Some x) \<Rightarrow>
                put_nested (CommonExtensionConfig_TapDSConfig_MarshalToSizedBuffer cs x)
                  dAtA (length dAtA) 0x1a) of
        Inl e \<Rightarrow> Inl e
      | Inr (dAtA', i) \<Rightarrow> Inr (dAtA', length dAtA - i))"

text \<open>
  \<^verbatim>\<open>MarshalTo\<close> of a wrapper, called through the interface:
  \<^verbatim>\<open>size := m.Size(); return m.MarshalToSizedBuffer(dAtA[:size])\<close>. Slicing beyond
  the buffer panics.
\<close>

definition isCommonExtensionConfig_ConfigType_MarshalTo ::
    "'tc ext_codec \<Rightarrow> 'cs ext_codec \<Rightarrow> ('tc, 'cs) isCommonExtensionConfig_ConfigType \<Rightarrow> byte list
       \<Rightarrow> error + (byte list \<times> nat)" where
  "isCommonExtensionConfig_ConfigType_MarshalTo tc cs v dAtA =
     (let sz = isCommonExtensionConfig_ConfigType_Size tc cs v in
      if length dAtA < sz then Inl Panic
      else
        (case (case v of
                 CommonExtensionConfig_AdminConfig x \<Rightarrow>
                   CommonExtensionConfig_AdminConfig_MarshalToSizedBuffer (Some x) (take sz dAtA)
               | CommonExtensionConfig_StaticConfig x \<Rightarrow>
                   CommonExtensionConfig_StaticConfig_MarshalToSizedBuffer tc (Some x) (take sz dAtA)
               | CommonExtensionConfig_TapdsConfig x \<Rightarrow>
                   CommonExtensionConfig_TapdsConfig_MarshalToSizedBuffer cs (Some x) (take sz dAtA)
               | CommonExtensionConfig_AdminConfig_nil \<Rightarrow>
                   CommonExtensionConfig_AdminConfig_MarshalToSizedBuffer None (take sz dAtA)
               | CommonExtensionConfig_StaticConfig_nil \<Rightarrow>
                   CommonExtensionConfig_StaticConfig_MarshalToSizedBuffer tc None (take sz dAtA)
               | CommonExtensionConfig_TapdsConfig_nil \<Rightarrow>
                   CommonExtensionConfig_TapdsConfig_MarshalToSizedBuffer cs None (take sz dAtA)) of
           Inl e \<Rightarrow> Inl e
         | Inr (sub, n) \<Rightarrow> Inr (sub @ drop sz dAtA, n)))"

text \<open>
  \<^verbatim>\<open>CommonExtensionConfig.MarshalToSizedBuffer\<close>: the unrecognized bytes, then
  \<^verbatim>\<open>i -= size\<close> and \<^verbatim>\<open>m.ConfigType.MarshalTo(dAtA[i:])\<close>, whose byte count is
  dropped (\<^verbatim>\<open>_\<close>).
\<close>

definition CommonExtensionConfig_MarshalToSizedBuffer ::
    "'tc ext_codec \<Rightarrow> 'cs ext_codec \<Rightarrow> ('tc, 'cs) CommonExtensionConfig \<Rightarrow> byte list
       \<Rightarrow> error + (byte list \<times> nat)" where
  "CommonExtensionConfig_MarshalToSizedBuffer tc cs m dAtA =
     (case (if XXX_unrecognized m \<noteq> []
            then copy_back dAtA (length dAtA) (XXX_unrecognized m)
            else Inr (dAtA, length dAtA)) of
        Inl e \<Rightarrow> Inl e
      | Inr (dAtA1, i1) \<Rightarrow>
          (case (case ConfigType m of
                   Some v \<Rightarrow>
                     (let sz = isCommonExtensionConfig_ConfigType_Size tc cs v in
                      if i1 < sz then Inl Panic
                      else
                        (case isCommonExtensionConfig_ConfigType_MarshalTo tc cs v (drop (i1 - sz) dAtA1) of
                           Inl e \<Rightarrow> Inl e
                         | Inr (sub, n) \<Rightarrow> Inr (take (i1 - sz) dAtA1 @ sub, i1 - sz)))
                 | None \<Rightarrow> Inr (dAtA1, i1)) of
             Inl e \<Rightarrow> Inl e
           | Inr (dAtA2, i2) \<Rightarrow> Inr (dAtA2, length dAtA - i2)))"

definition CommonExtensionConfig_Marshal ::
    "'tc ext_codec \<Rightarrow> 'cs ext_codec \<Rightarrow> ('tc, 'cs) CommonExtensionConfig \<Rightarrow> error + byte list" where
  "CommonExtensionConfig_Marshal tc cs m =
     Marshal_with (CommonExtensionConfig_Size tc cs (Some m))
       (CommonExtensionConfig_MarshalToSizedBuffer tc cs m)"

function CommonExtensionConfig_Unmarshal_loop ::
    "'tc ext_codec \<Rightarrow> 'cs ext_codec \<Rightarrow> ('tc, 'cs) CommonExtensionConfig \<Rightarrow> byte list \<Rightarrow> nat
       \<Rightarrow> error + ('tc, 'cs) CommonExtensionConfig" where
  "CommonExtensionConfig_Unmarshal_loop tc cs m dAtA iNdEx =
     (if iNdEx < length dAtA then
        (case decode_varint dAtA iNdEx 0 0 of
           Inl e \<Rightarrow> Inl e
         | Inr (wire, iNdEx') \<Rightarrow>
             if wireType_of wire = 4 then Inl (ErrEndGroupForNonGroup ''CommonExtensionConfig'')
             else if fieldNum_of wire \<le> 0
               then Inl (ErrIllegalTag ''CommonExtensionConfig'' (fieldNum_of wire))
             else if fieldNum_of wire = 1 then
               (if wireType_of wire \<noteq> 2 then Inl (ErrWrongWireType (wireType_of wire) ''AdminConfig'')
                else
                  (case read_length dAtA iNdEx' of
                     Inl e \<Rightarrow> Inl e
                   | Inr (iNdEx'', postIndex) \<Rightarrow>
                       (case AdminConfig_Unmarshal AdminConfig_new (slice dAtA iNdEx'' postIndex) of
                          Inl e \<Rightarrow> Inl e
                        | Inr v \<Rightarrow>
                            CommonExtensionConfig_Unmarshal_loop tc cs
                              (m\<lparr>ConfigType := Some (CommonExtensionConfig_AdminConfig (Some v))\<rparr>)
                              dAtA postIndex)))
             else if fieldNum_of wire = 2 then
               (if wireType_of wire \<noteq> 2 then Inl (ErrWrongWireType (wireType_of wire) ''StaticConfig'')
                else
                  (case read_length dAtA iNdEx' of
                     Inl e \<Rightarrow> Inl e
                   | Inr (iNdEx'', postIndex) \<Rightarrow>
                       (case ext_Unmarshal tc (ext_new tc) (slice dAtA iNdEx'' postIndex) of
                          Inl e \<Rightarrow> Inl e
                        | Inr v \<Rightarrow>
                            CommonExtensionConfig_Unmarshal_loop tc cs
                              (m\<lparr>ConfigType := Some (CommonExtensionConfig_StaticConfig (Some v))\<rparr>)
                              dAtA postIndex)))
             else if fieldNum_of wire = 3 then
               (if wireType_of wire \<noteq> 2 then Inl (ErrWrongWireType (wireType_of wire) ''TapdsConfig'')
                else
                  (case read_length dAtA iNdEx' of
                     Inl e \<Rightarrow> Inl e
                   | Inr (iNdEx'', postIndex) \<Rightarrow>
                       (case CommonExtensionConfig_TapDSConfig_Unmarshal cs
                               CommonExtensionConfig_TapDSConfig_new (slice dAtA iNdEx'' postIndex) of
                          Inl e \<Rightarrow> Inl e
                        | Inr v \<Rightarrow>
                            CommonExtensionConfig_Unmarshal_loop tc cs
                              (m\<lparr>ConfigType := Some (CommonExtensionConfig_TapdsConfig (Some v))\<rparr>)
                              dAtA postIndex)))
             else
               (case skip_unknown dAtA iNdEx of
                  Inl e \<Rightarrow> Inl e
                | Inr skippy \<Rightarrow>
                    CommonExtensionConfig_Unmarshal_loop tc cs
                      (m\<lparr>XXX_unrecognized := XXX_unrecognized m @ slice dAtA iNdEx (iNdEx + skippy)\<rparr>)
                      dAtA (iNdEx + skippy)))
      else if iNdEx > length dAtA then Inl ErrUnexpectedEOF
      else Inr m)"
  by pat_completeness auto
termination
  by (relation "measure (\<lambda>(tc, cs, m, dAtA, iNdEx). length dAtA - iNdEx)")
    (auto dest!: decode_varint_bounds read_length_bounds skip_unknown_bounds)

declare CommonExtensionConfig_Unmarshal_loop.simps [simp del]

definition CommonExtensionConfig_Unmarshal ::
    "'tc ext_codec \<Rightarrow> 'cs ext_codec \<Rightarrow> ('tc, 'cs) CommonExtensionConfig \<Rightarrow> byte list
       \<Rightarrow> error + ('tc, 'cs) CommonExtensionConfig" where
  "CommonExtensionConfig_Unmarshal tc cs m dAtA = CommonExtensionConfig_Unmarshal_loop tc cs m dAtA 0"

section \<open>The wire format, as a function of the message\<close>

text \<open>
  The byte sequences that the buffer-filling code is compared with: the bytes of a varint,
  of a length-delimited field, and of each message. They follow the wire format of the
  spec, section 6, and the order of the fields on the wire: field 1 first, the unrecognized
  bytes last.
\<close>

text \<open>The bytes of a string literal, as Go's \<^verbatim>\<open>[]byte(s)\<close> gives them for ASCII.\<close>

definition bytes_of :: "string \<Rightarrow> byte list" where
  "bytes_of s = map (\<lambda>c. word_of_nat (of_char c)) s"

function varint_bytes :: "64 word \<Rightarrow> byte list" where
  "varint_bytes v =
     (if v \<ge> 128 then ucast (v AND 0x7f OR 0x80) # varint_bytes (drop_bit 7 v) else [ucast v])"
  by pat_completeness auto
termination
proof (relation "measure unat")
  show "wf (measure unat)" by simp
next
  fix v :: "64 word"
  assume "128 \<le> v"
  then have "128 \<le> unat v" by (simp add: word_le_nat_alt)
  then have "unat v div 128 < unat v" by simp
  then show "(drop_bit 7 v, v) \<in> measure unat"
    by (simp add: drop_bit_eq_div unat_div)
qed

declare varint_bytes.simps [simp del]

definition field_bytes :: "byte \<Rightarrow> byte list \<Rightarrow> byte list" where
  "field_bytes tag payload = tag # varint_bytes (word_of_nat (length payload)) @ payload"

text \<open>
  What the encoders of the other packages produce for a value, and the contract that this
  file relies on: the encoder succeeds and \<^verbatim>\<open>Size\<close> is the length of its output.
\<close>

definition ext_bytes :: "'a ext_codec \<Rightarrow> 'a \<Rightarrow> byte list" where
  "ext_bytes c x = (case ext_Marshal c x of Inl e \<Rightarrow> [] | Inr bs \<Rightarrow> bs)"

definition ext_marshal_ok :: "'a ext_codec \<Rightarrow> 'a \<Rightarrow> bool" where
  "ext_marshal_ok c x = (case ext_Marshal c x of Inl e \<Rightarrow> False | Inr bs \<Rightarrow> length bs = ext_Size c x)"

definition TapDSConfig_ext_ok :: "'cs ext_codec \<Rightarrow> 'cs CommonExtensionConfig_TapDSConfig \<Rightarrow> bool" where
  "TapDSConfig_ext_ok cs m = (case ConfigSource m of None \<Rightarrow> True | Some x \<Rightarrow> ext_marshal_ok cs x)"

definition ConfigType_ext_ok ::
    "'tc ext_codec \<Rightarrow> 'cs ext_codec \<Rightarrow> ('tc, 'cs) isCommonExtensionConfig_ConfigType \<Rightarrow> bool" where
  "ConfigType_ext_ok tc cs v =
     (case v of
        CommonExtensionConfig_StaticConfig x \<Rightarrow>
          (case x of Some s \<Rightarrow> ext_marshal_ok tc s | None \<Rightarrow> True)
      | CommonExtensionConfig_TapdsConfig x \<Rightarrow>
          (case x of Some t \<Rightarrow> TapDSConfig_ext_ok cs t | None \<Rightarrow> True)
      | _ \<Rightarrow> True)"

definition CommonExtensionConfig_ext_ok ::
    "'tc ext_codec \<Rightarrow> 'cs ext_codec \<Rightarrow> ('tc, 'cs) CommonExtensionConfig \<Rightarrow> bool" where
  "CommonExtensionConfig_ext_ok tc cs m =
     (case ConfigType m of Some v \<Rightarrow> ConfigType_ext_ok tc cs v | None \<Rightarrow> True)"

text \<open>
  The oneof of a message holds the nil pointer of one of the three wrapper types. No
  function of the file builds such a value, but a caller can assign one.
\<close>

definition ConfigType_nil_wrapper :: "('tc, 'cs) isCommonExtensionConfig_ConfigType \<Rightarrow> bool" where
  "ConfigType_nil_wrapper v =
     (case v of
        CommonExtensionConfig_AdminConfig_nil \<Rightarrow> True
      | CommonExtensionConfig_StaticConfig_nil \<Rightarrow> True
      | CommonExtensionConfig_TapdsConfig_nil \<Rightarrow> True
      | _ \<Rightarrow> False)"

definition CommonExtensionConfig_nil_wrapper :: "('tc, 'cs) CommonExtensionConfig \<Rightarrow> bool" where
  "CommonExtensionConfig_nil_wrapper m =
     (case ConfigType m of Some v \<Rightarrow> ConfigType_nil_wrapper v | None \<Rightarrow> False)"

definition AdminConfig_encoding :: "AdminConfig \<Rightarrow> byte list" where
  "AdminConfig_encoding m =
     (if ConfigId m \<noteq> [] then field_bytes 0xa (ConfigId m) else [])
       @ AdminConfig_XXX_unrecognized m"

definition CommonExtensionConfig_TapDSConfig_encoding ::
    "'cs ext_codec \<Rightarrow> 'cs CommonExtensionConfig_TapDSConfig \<Rightarrow> byte list" where
  "CommonExtensionConfig_TapDSConfig_encoding cs m =
     (case ConfigSource m of Some x \<Rightarrow> field_bytes 0xa (ext_bytes cs x) | None \<Rightarrow> [])
       @ (if Name m \<noteq> [] then field_bytes 0x12 (Name m) else [])
       @ TapDSConfig_XXX_unrecognized m"

definition isCommonExtensionConfig_ConfigType_encoding ::
    "'tc ext_codec \<Rightarrow> 'cs ext_codec \<Rightarrow> ('tc, 'cs) isCommonExtensionConfig_ConfigType \<Rightarrow> byte list" where
  "isCommonExtensionConfig_ConfigType_encoding tc cs v =
     (case v of
        CommonExtensionConfig_AdminConfig x \<Rightarrow>
          (case x of Some a \<Rightarrow> field_bytes 0xa (AdminConfig_encoding a) | None \<Rightarrow> [])
      | CommonExtensionConfig_StaticConfig x \<Rightarrow>
          (case x of Some s \<Rightarrow> field_bytes 0x12 (ext_bytes tc s) | None \<Rightarrow> [])
      | CommonExtensionConfig_TapdsConfig x \<Rightarrow>
          (case x of Some t \<Rightarrow> field_bytes 0x1a (CommonExtensionConfig_TapDSConfig_encoding cs t)
           | None \<Rightarrow> [])
      | _ \<Rightarrow> [])"

definition CommonExtensionConfig_encoding ::
    "'tc ext_codec \<Rightarrow> 'cs ext_codec \<Rightarrow> ('tc, 'cs) CommonExtensionConfig \<Rightarrow> byte list" where
  "CommonExtensionConfig_encoding tc cs m =
     (case ConfigType m of Some v \<Rightarrow> isCommonExtensionConfig_ConfigType_encoding tc cs v | None \<Rightarrow> [])
       @ XXX_unrecognized m"

text \<open>
  A \<^verbatim>\<open>MarshalToSizedBuffer\<close> that is given a buffer with enough room writes \<open>enc\<close> at
  the end of it, leaves the rest as it was and returns the length of \<open>enc\<close>.
\<close>

definition fills :: "(byte list \<Rightarrow> error + (byte list \<times> nat)) \<Rightarrow> byte list \<Rightarrow> bool" where
  "fills fill enc \<longleftrightarrow>
     (\<forall>dAtA. length enc \<le> length dAtA \<longrightarrow>
        fill dAtA = Inr (take (length dAtA - length enc) dAtA @ enc, length enc))"

text \<open>
  An instance of the parameters for the concrete examples: a message of another package
  that is its own encoding.
\<close>

definition opaque_codec :: "byte list ext_codec" where
  "opaque_codec =
     \<lparr>ext_Size = length, ext_Marshal = Inr, ext_Unmarshal = (\<lambda>old dAtA. Inr dAtA), ext_new = []\<rparr>"

section \<open>Well-formed messages\<close>

text \<open>
  The unrecognized bytes that \<^verbatim>\<open>Unmarshal\<close> stores are whole fields: from
  \<open>iNdEx\<close> on, the buffer is a sequence of fields, each with a tag that is not an end
  of group, with a field number above 0 that is not in \<open>known\<close>, and each delimited
  by \<^verbatim>\<open>skipCommon\<close> within the buffer.
\<close>

function unknown_fields :: "int list \<Rightarrow> byte list \<Rightarrow> nat \<Rightarrow> bool" where
  "unknown_fields known dAtA iNdEx =
     (if iNdEx < length dAtA then
        (case decode_varint dAtA iNdEx 0 0 of
           Inl e \<Rightarrow> False
         | Inr (wire, iNdEx') \<Rightarrow>
             if wireType_of wire = 4 \<or> fieldNum_of wire \<le> 0 \<or> fieldNum_of wire \<in> set known
             then False
             else
               (case skip_unknown dAtA iNdEx of
                  Inl e \<Rightarrow> False
                | Inr skippy \<Rightarrow> unknown_fields known dAtA (iNdEx + skippy)))
      else True)"
  by pat_completeness auto
termination
  by (relation "measure (\<lambda>(known, dAtA, iNdEx). length dAtA - iNdEx)")
    (auto dest!: skip_unknown_bounds)

declare unknown_fields.simps [simp del]

text \<open>
  The contract of the decoders of the other packages that a round trip relies on: decoding
  the encoding of a value into an empty message gives the value back.
\<close>

definition ext_round_trip :: "'a ext_codec \<Rightarrow> 'a \<Rightarrow> bool" where
  "ext_round_trip c x \<longleftrightarrow> ext_Unmarshal c (ext_new c) (ext_bytes c x) = Inr x"

text \<open>
  A message is well formed when its unrecognized bytes are unknown fields of its schema, the
  oneof, if it is set, is a wrapper (not a nil pointer) that holds a message, and the nested
  messages are well formed too.
\<close>

definition AdminConfig_well_formed :: "AdminConfig \<Rightarrow> bool" where
  "AdminConfig_well_formed m \<longleftrightarrow> unknown_fields [1] (AdminConfig_XXX_unrecognized m) 0"

definition TapDSConfig_well_formed ::
    "'cs ext_codec \<Rightarrow> 'cs CommonExtensionConfig_TapDSConfig \<Rightarrow> bool" where
  "TapDSConfig_well_formed cs m \<longleftrightarrow>
     unknown_fields [1, 2] (TapDSConfig_XXX_unrecognized m) 0
     \<and> (case ConfigSource m of None \<Rightarrow> True | Some x \<Rightarrow> ext_round_trip cs x)"

definition ConfigType_well_formed ::
    "'tc ext_codec \<Rightarrow> 'cs ext_codec \<Rightarrow> ('tc, 'cs) isCommonExtensionConfig_ConfigType \<Rightarrow> bool" where
  "ConfigType_well_formed tc cs v =
     (case v of
        CommonExtensionConfig_AdminConfig x \<Rightarrow>
          (case x of Some a \<Rightarrow> AdminConfig_well_formed a | None \<Rightarrow> False)
      | CommonExtensionConfig_StaticConfig x \<Rightarrow>
          (case x of Some s \<Rightarrow> ext_round_trip tc s | None \<Rightarrow> False)
      | CommonExtensionConfig_TapdsConfig x \<Rightarrow>
          (case x of Some t \<Rightarrow> TapDSConfig_well_formed cs t | None \<Rightarrow> False)
      | _ \<Rightarrow> False)"

definition CommonExtensionConfig_well_formed ::
    "'tc ext_codec \<Rightarrow> 'cs ext_codec \<Rightarrow> ('tc, 'cs) CommonExtensionConfig \<Rightarrow> bool" where
  "CommonExtensionConfig_well_formed tc cs m \<longleftrightarrow>
     unknown_fields [1, 2, 3] (XXX_unrecognized m) 0
     \<and> (case ConfigType m of None \<Rightarrow> True | Some v \<Rightarrow> ConfigType_well_formed tc cs v)"

text \<open>Three values for the concrete examples.\<close>

definition example_AdminConfig :: AdminConfig where
  "example_AdminConfig =
     \<lparr>ConfigId = bytes_of ''filter-1'', AdminConfig_XXX_unrecognized = [0x10, 0x96, 0x01]\<rparr>"

definition example_TapDSConfig :: "byte list CommonExtensionConfig_TapDSConfig" where
  "example_TapDSConfig =
     \<lparr>ConfigSource = Some [1, 2, 3], Name = bytes_of ''tap'',
      TapDSConfig_XXX_unrecognized = [0x18, 0x01, 0x23, 0x2d, 1, 2, 3, 4, 0x24]\<rparr>"

definition example_CommonExtensionConfig :: "(byte list, byte list) CommonExtensionConfig" where
  "example_CommonExtensionConfig =
     \<lparr>ConfigType = Some (CommonExtensionConfig_TapdsConfig (Some example_TapDSConfig)),
      XXX_unrecognized = [0x22, 0x02, 0x68, 0x69]\<rparr>"

text \<open>
  The \<open>n\<close> bytes from \<open>iNdEx\<close> on are in the buffer and each has its continuation
  bit set.
\<close>

definition continuation_bytes :: "byte list \<Rightarrow> nat \<Rightarrow> nat \<Rightarrow> bool" where
  "continuation_bytes dAtA iNdEx n \<longleftrightarrow>
     iNdEx + n \<le> length dAtA \<and> list_all (\<lambda>b. 0x80 \<le> b) (take n (drop iNdEx dAtA))"

text \<open>
  Field 1 with wire type 2 and a length prefix of ten continuation bytes, and the same tag
  with the ten-byte varint of \<open>2 ^ 64 - 1\<close>, which is \<open>- 1\<close> as an \<^verbatim>\<open>int\<close>.
\<close>

definition example_long_varint :: "byte list" where
  "example_long_varint = 0x0a # replicate 10 0x80"

definition example_negative_length :: "byte list" where
  "example_negative_length = 0x0a # replicate 9 0xff @ [0x01]"

text \<open>The same two buffers with the tag of field 4, which none of the three schemas knows.\<close>

definition example_unknown_long_varint :: "byte list" where
  "example_unknown_long_varint = 0x22 # replicate 10 0x80"

definition example_unknown_negative_length :: "byte list" where
  "example_unknown_negative_length = 0x22 # replicate 9 0xff @ [0x01]"

text \<open>
  After a field of three bytes, the tag of field 4 with the length \<open>2 ^ 63 - 11\<close>: the
  end index of the field is below \<open>2 ^ 63\<close> when counted from the tag, as
  \<^verbatim>\<open>skipCommon\<close> counts it, and above when counted from the start of the buffer.
\<close>

definition example_unknown_wrapping_length :: "byte list" where
  "example_unknown_wrapping_length = [0x0a, 0x01, 0x41, 0x22, 0xf5] @ replicate 7 0xff @ [0x7f]"

text \<open>The encodings of the three example values.\<close>

definition example_AdminConfig_bytes :: "byte list" where
  "example_AdminConfig_bytes = [10, 8, 102, 105, 108, 116, 101, 114, 45, 49, 16, 150, 1]"

definition example_TapDSConfig_bytes :: "byte list" where
  "example_TapDSConfig_bytes = [10, 3, 1, 2, 3, 18, 3, 116, 97, 112, 24, 1, 35, 45, 1, 2, 3, 4, 36]"

definition example_CommonExtensionConfig_bytes :: "byte list" where
  "example_CommonExtensionConfig_bytes =
     [26, 19, 10, 3, 1, 2, 3, 18, 3, 116, 97, 112, 24, 1, 35, 45, 1, 2, 3, 4, 36, 34, 2, 104, 105]"

section \<open>The fields of the wire format\<close>

text \<open>
  The decoders are compared with a description of the wire format as data, after the spec
  (section 4.1, section 6 and the glossary): a message is a sequence of fields, each a tag followed by its payload;
  the tag is the varint of \<^verbatim>\<open>(field_number << 3) | wire_type\<close>, and the wire type
  says how the payload is framed: a varint (0), eight bytes (1), a length prefix and as many
  bytes (2), the fields of a group up to its end tag (3 and 4), four bytes (5).
\<close>

text \<open>
  A varint on the wire: at most ten bytes, the continuation bit set in all but the last, and
  the value they stand for, seven bits a byte, the low bits first, cut to 64 bits.
\<close>

definition varint_ok :: "byte list \<Rightarrow> bool" where
  "varint_ok bs \<longleftrightarrow>
     bs \<noteq> [] \<and> length bs \<le> 10 \<and> list_all (\<lambda>b. 0x80 \<le> b) (butlast bs) \<and> last bs < 0x80"

fun varint_value :: "byte list \<Rightarrow> 64 word" where
  "varint_value [] = 0"
| "varint_value (b # bs) = ucast (b AND 0x7F) OR push_bit 7 (varint_value bs)"

text \<open>
  A tag with the wire type \<open>wt\<close>: a varint whose low three bits are \<open>wt\<close> and whose
  field number, the bits above, is not 0 and fits the 29 bits that the wire format gives a
  field number.
\<close>

definition tag_ok :: "byte list \<Rightarrow> 64 word \<Rightarrow> bool" where
  "tag_ok t wt \<longleftrightarrow>
     varint_ok t \<and> varint_value t AND 0x7 = wt
     \<and> drop_bit 3 (varint_value t) \<noteq> 0 \<and> varint_value t < 2 ^ 32"

text \<open>
  A field is given by its bytes, part by part: the tag, then the varint, the eight or four
  bytes, the length prefix and the payload, or the fields of the group and its end tag.
  \<open>wire_field_ok\<close> says when the parts are what the wire type asks for. The field number
  of an end tag is not compared with that of the start tag.
\<close>

datatype wire_field =
    Varint_field "byte list" "byte list"
  | Fixed64_field "byte list" "byte list"
  | Bytes_field "byte list" "byte list" "byte list"
  | Group_field "byte list" "wire_field list" "byte list"
  | Fixed32_field "byte list" "byte list"

fun wire_field_bytes :: "wire_field \<Rightarrow> byte list" where
  "wire_field_bytes (Varint_field t v) = t @ v"
| "wire_field_bytes (Fixed64_field t bs) = t @ bs"
| "wire_field_bytes (Bytes_field t l bs) = t @ l @ bs"
| "wire_field_bytes (Group_field t fs e) = t @ concat (map wire_field_bytes fs) @ e"
| "wire_field_bytes (Fixed32_field t bs) = t @ bs"

fun wire_field_ok :: "wire_field \<Rightarrow> bool" where
  "wire_field_ok (Varint_field t v) \<longleftrightarrow> tag_ok t 0 \<and> varint_ok v"
| "wire_field_ok (Fixed64_field t bs) \<longleftrightarrow> tag_ok t 1 \<and> length bs = 8"
| "wire_field_ok (Bytes_field t l bs) \<longleftrightarrow>
     tag_ok t 2 \<and> varint_ok l \<and> varint_value l = word_of_nat (length bs)"
| "wire_field_ok (Group_field t fs e) \<longleftrightarrow> tag_ok t 3 \<and> list_all wire_field_ok fs \<and> tag_ok e 4"
| "wire_field_ok (Fixed32_field t bs) \<longleftrightarrow> tag_ok t 5 \<and> length bs = 4"

fun field_tag :: "wire_field \<Rightarrow> byte list" where
  "field_tag (Varint_field t v) = t"
| "field_tag (Fixed64_field t bs) = t"
| "field_tag (Bytes_field t l bs) = t"
| "field_tag (Group_field t fs e) = t"
| "field_tag (Fixed32_field t bs) = t"

definition field_number :: "wire_field \<Rightarrow> 64 word" where
  "field_number f = drop_bit 3 (varint_value (field_tag f))"

text \<open>A well-formed field with a number that is not in \<open>known\<close>, and the bytes of a sequence of fields.\<close>

definition unknown_field :: "64 word list \<Rightarrow> wire_field \<Rightarrow> bool" where
  "unknown_field known f \<longleftrightarrow> wire_field_ok f \<and> field_number f \<notin> set known"

definition wire_fields_bytes :: "wire_field list \<Rightarrow> byte list" where
  "wire_fields_bytes fs = concat (map wire_field_bytes fs)"

text \<open>
  Five fields with numbers that none of the three schemas knows, one of each wire type: a
  varint, eight bytes, a group (with four bytes, an empty group and a length-delimited field
  inside), a length-delimited field whose tag is a varint of two bytes, and four bytes; and
  the bytes they stand for.
\<close>

definition example_wire_fields :: "wire_field list" where
  "example_wire_fields =
     [Varint_field [0x20] [0xac, 0x02],
      Fixed64_field [0x29] [1, 2, 3, 4, 5, 6, 7, 8],
      Group_field [0x33]
        [Fixed32_field [0x3d] [1, 2, 3, 4], Group_field [0x43] [] [0x44], Bytes_field [0x0a] [0x01] [0x41]]
        [0x34],
      Bytes_field [0xca, 0x00] [0x01] [0x7a],
      Fixed32_field [0xa5, 0x06] [9, 9, 9, 9]]"

definition example_wire_fields_bytes :: "byte list" where
  "example_wire_fields_bytes =
     [0x20, 0xac, 0x02,
      0x29, 1, 2, 3, 4, 5, 6, 7, 8,
      0x33, 0x3d, 1, 2, 3, 4, 0x43, 0x44, 0x0a, 0x01, 0x41, 0x34,
      0xca, 0x00, 0x01, 0x7a,
      0xa5, 0x06, 9, 9, 9, 9]"

section \<open>Size and the bytes written\<close>

text \<open>
  \<^verbatim>\<open>sovCommon\<close> is the number of bytes of a varint, and every
  \<^verbatim>\<open>MarshalToSizedBuffer\<close> writes the encoding of its message at the end of a buffer
  that has room for it: first for the single steps on the buffer, then for each message.
\<close>

lemma Len64_Suc: "x \<noteq> 0 \<Longrightarrow> Len64 x = Suc (Len64 (drop_bit 1 x))"
  by (subst Len64.simps) simp

lemma Len64_0: "Len64 0 = 0"
  by (subst Len64.simps) simp

lemma Len64_or_1: "x \<noteq> 0 \<Longrightarrow> Len64 (x OR 1) = Len64 x"
proof -
  assume x: "x \<noteq> 0"
  have "drop_bit 1 (x OR 1) = drop_bit 1 x"
    by (simp add: drop_bit_or)
  moreover have "x OR 1 \<noteq> 0" by (simp add: or_eq_0_iff)
  ultimately show ?thesis using x by (simp add: Len64_Suc)
qed

lemma Len64_drop_bit: "2 ^ k \<le> unat v \<Longrightarrow> Len64 v = k + Len64 (drop_bit k v)"
proof (induction k arbitrary: v)
  case 0
  then show ?case by simp
next
  case (Suc k)
  then have nz: "v \<noteq> 0" by (auto simp: unat_eq_0)
  from Suc.prems have "2 ^ k \<le> unat (drop_bit 1 v)"
    by (simp add: drop_bit_eq_div unat_div)
  from Suc.IH [OF this] nz show ?case
    by (simp add: Len64_Suc drop_bit_drop_bit)
qed

lemma Len64_le: "unat v < 2 ^ k \<Longrightarrow> Len64 v \<le> k"
proof (induction k arbitrary: v)
  case 0
  then have "v = 0" by (simp add: unat_eq_0)
  then show ?case by (simp add: Len64_0)
next
  case (Suc k)
  show ?case
  proof (cases "v = 0")
    case True
    then show ?thesis by (simp add: Len64_0)
  next
    case False
    from Suc.prems have "unat (drop_bit 1 v) < 2 ^ k"
      by (simp add: drop_bit_eq_div unat_div)
    from Suc.IH [OF this] False show ?thesis by (simp add: Len64_Suc)
  qed
qed

lemma sovCommon_small: "v < 128 \<Longrightarrow> sovCommon v = 1"
proof -
  assume v: "v < 128"
  then have "unat v < 128" by (simp add: word_less_nat_alt)
  then have "drop_bit 7 v = 0" by (simp add: drop_bit_eq_div unat_eq_0 [symmetric] unat_div)
  then have "drop_bit 7 (v OR 1) = 0" by (simp add: drop_bit_or)
  then have "unat (v OR 1) < 2 ^ 7"
    by (simp add: drop_bit_eq_div unat_eq_0 [symmetric] unat_div)
  then have a: "Len64 (v OR 1) \<le> 7" by (rule Len64_le)
  have "v OR 1 \<noteq> 0" by (simp add: or_eq_0_iff)
  then have "1 \<le> Len64 (v OR 1)" by (simp add: Len64_Suc)
  with a show ?thesis by (simp add: sovCommon_def)
qed

lemma sovCommon_large: "128 \<le> v \<Longrightarrow> sovCommon v = Suc (sovCommon (drop_bit 7 v))"
proof -
  assume v: "128 \<le> v"
  then have u: "2 ^ 7 \<le> unat v" by (simp add: word_le_nat_alt)
  then have nz: "v \<noteq> 0" by (auto simp: unat_eq_0)
  from u have "1 \<le> unat (drop_bit 7 v)" by (simp add: drop_bit_eq_div unat_div)
  then have dnz: "drop_bit 7 v \<noteq> 0" by (auto simp: unat_eq_0)
  have "Len64 (v OR 1) = Len64 v" using nz by (rule Len64_or_1)
  also have "\<dots> = 7 + Len64 (drop_bit 7 v)" using u by (rule Len64_drop_bit)
  also have "Len64 (drop_bit 7 v) = Len64 (drop_bit 7 v OR 1)" using dnz by (simp add: Len64_or_1)
  finally show ?thesis by (simp add: sovCommon_def)
qed

lemma length_varint_bytes: "length (varint_bytes v) = sovCommon v"
proof (induction v rule: varint_bytes.induct)
  case (1 v)
  show ?case
  proof (cases "128 \<le> v")
    case True
    with 1 show ?thesis by (subst varint_bytes.simps) (simp add: sovCommon_large)
  next
    case False
    then show ?thesis by (subst varint_bytes.simps) (simp add: sovCommon_small)
  qed
qed

lemma encodeVarintCommon_loop_eq:
  "offset + sovCommon v \<le> length dAtA \<Longrightarrow>
   encodeVarintCommon_loop dAtA offset v
     = Inr (take offset dAtA @ varint_bytes v @ drop (offset + sovCommon v) dAtA)"
proof (induction dAtA offset v rule: encodeVarintCommon_loop.induct)
  case (1 dAtA offset v)
  show ?case
  proof (cases "128 \<le> v")
    case True
    with "1.prems" have lt: "offset < length dAtA" and
      le: "offset + 1 + sovCommon (drop_bit 7 v) \<le> length (dAtA[offset := ucast (v AND 0x7f OR 0x80)])"
      by (simp_all add: sovCommon_large)
    from "1.IH" [OF True lt le] True lt show ?thesis
      by (subst encodeVarintCommon_loop.simps, subst varint_bytes.simps)
        (simp add: sovCommon_large take_Suc_conv_app_nth)
  next
    case False
    with "1.prems" have lt: "offset < length dAtA" by (simp add: sovCommon_small)
    with False show ?thesis
      by (subst encodeVarintCommon_loop.simps, subst varint_bytes.simps)
        (simp add: sovCommon_small upd_conv_take_nth_drop)
  qed
qed

lemma encodeVarintCommon_eq:
  "sovCommon v \<le> offset \<Longrightarrow> offset \<le> length dAtA \<Longrightarrow>
   encodeVarintCommon dAtA offset v
     = Inr (take (offset - sovCommon v) dAtA @ varint_bytes v @ drop offset dAtA,
            offset - sovCommon v)"
  by (simp add: encodeVarintCommon_def encodeVarintCommon_loop_eq)

lemma copy_back_eq:
  "length src \<le> i \<Longrightarrow> i \<le> length dAtA \<Longrightarrow>
   copy_back dAtA i src = Inr (take (i - length src) dAtA @ src @ drop i dAtA, i - length src)"
  by (simp add: copy_back_def)

lemma put_back_eq:
  "0 < i \<Longrightarrow> i \<le> length dAtA \<Longrightarrow>
   put_back dAtA i b = Inr (take (i - 1) dAtA @ b # drop i dAtA, i - 1)"
  by (cases i) (simp_all add: put_back_def upd_conv_take_nth_drop)

lemma put_header_eq:
  assumes "Suc (sovCommon (word_of_nat sz)) \<le> i" "i \<le> length dAtA"
  shows "put_header dAtA i sz tag
     = Inr (take (i - Suc (sovCommon (word_of_nat sz))) dAtA
              @ tag # varint_bytes (word_of_nat sz) @ drop i dAtA,
            i - Suc (sovCommon (word_of_nat sz)))"
proof -
  let ?s = "sovCommon (word_of_nat sz :: 64 word)"
  have e: "encodeVarintCommon dAtA i (word_of_nat sz)
     = Inr (take (i - ?s) dAtA @ varint_bytes (word_of_nat sz) @ drop i dAtA, i - ?s)"
    using assms by (simp add: encodeVarintCommon_eq)
  have p: "put_back (take (i - ?s) dAtA @ varint_bytes (word_of_nat sz) @ drop i dAtA) (i - ?s) tag
     = Inr (take (i - ?s - 1) (take (i - ?s) dAtA @ varint_bytes (word_of_nat sz) @ drop i dAtA)
              @ tag # drop (i - ?s) (take (i - ?s) dAtA @ varint_bytes (word_of_nat sz) @ drop i dAtA),
            i - ?s - 1)"
    using assms by (intro put_back_eq) (simp_all add: length_varint_bytes)
  show ?thesis
    unfolding put_header_def e using assms
    by (simp add: p min_def)
qed

lemma length_field_bytes:
  "length (field_bytes tag payload)
     = 1 + length payload + sovCommon (word_of_nat (length payload))"
  by (simp add: field_bytes_def length_varint_bytes)

lemma put_nested_eq:
  assumes f: "fill (take i dAtA) = Inr (take (i - length enc) dAtA @ enc, length enc)"
    and i: "length (field_bytes tag enc) \<le> i" "i \<le> length dAtA"
  shows "put_nested fill dAtA i tag
     = Inr (take (i - length (field_bytes tag enc)) dAtA @ field_bytes tag enc @ drop i dAtA,
            i - length (field_bytes tag enc))"
proof -
  let ?s = "sovCommon (word_of_nat (length enc) :: 64 word)"
  from i have le: "Suc ?s \<le> i - length enc" "length enc \<le> i"
    by (simp_all add: length_field_bytes)
  have h: "put_header (take (i - length enc) dAtA @ enc @ drop i dAtA) (i - length enc) (length enc) tag
    = Inr (take (i - length enc - Suc ?s) (take (i - length enc) dAtA @ enc @ drop i dAtA)
              @ tag # varint_bytes (word_of_nat (length enc))
              @ drop (i - length enc) (take (i - length enc) dAtA @ enc @ drop i dAtA),
            i - length enc - Suc ?s)"
    using i le by (intro put_header_eq) simp_all
  show ?thesis
    unfolding put_nested_def f using le i
    by (simp add: h field_bytes_def length_varint_bytes min_def add.commute)
qed

lemma length_AdminConfig_encoding:
  "length (AdminConfig_encoding m) = AdminConfig_Size (Some m)"
  by (simp add: AdminConfig_encoding_def AdminConfig_Size_def length_field_bytes Let_def)

lemma copy_field_eq:
  assumes "length (field_bytes tag src) \<le> i" "i \<le> length dAtA"
  shows "(case copy_back dAtA i src of
            Inl e \<Rightarrow> Inl e
          | Inr (dAtA2, i2) \<Rightarrow> put_header dAtA2 i2 (length src) tag)
     = Inr (take (i - length (field_bytes tag src)) dAtA @ field_bytes tag src @ drop i dAtA,
            i - length (field_bytes tag src))"
proof -
  let ?s = "sovCommon (word_of_nat (length src) :: 64 word)"
  from assms have le: "Suc ?s \<le> i - length src" "length src \<le> i"
    by (simp_all add: length_field_bytes)
  have c: "copy_back dAtA i src = Inr (take (i - length src) dAtA @ src @ drop i dAtA, i - length src)"
    using le assms by (simp add: copy_back_eq)
  have h: "put_header (take (i - length src) dAtA @ src @ drop i dAtA) (i - length src) (length src) tag
    = Inr (take (i - length src - Suc ?s) (take (i - length src) dAtA @ src @ drop i dAtA)
              @ tag # varint_bytes (word_of_nat (length src))
              @ drop (i - length src) (take (i - length src) dAtA @ src @ drop i dAtA),
            i - length src - Suc ?s)"
    using assms le by (intro put_header_eq) simp_all
  show ?thesis
    unfolding c using le assms
    by (simp add: h field_bytes_def length_varint_bytes min_def add.commute)
qed

lemma AdminConfig_MarshalToSizedBuffer_eq:
  assumes "AdminConfig_Size (Some m) \<le> length dAtA"
  shows "AdminConfig_MarshalToSizedBuffer m dAtA
     = Inr (take (length dAtA - AdminConfig_Size (Some m)) dAtA @ AdminConfig_encoding m,
            AdminConfig_Size (Some m))"
proof -
  let ?u = "AdminConfig_XXX_unrecognized m"
  have u: "(if ?u \<noteq> [] then copy_back dAtA (length dAtA) ?u else Inr (dAtA, length dAtA))
      = Inr (take (length dAtA - length ?u) dAtA @ ?u, length dAtA - length ?u)"
    using assms by (simp add: copy_back_eq AdminConfig_Size_def Let_def split: if_splits)
  show ?thesis
  proof (cases "ConfigId m = []")
    case True
    with assms show ?thesis
      unfolding AdminConfig_MarshalToSizedBuffer_def u
      by (simp add: AdminConfig_encoding_def AdminConfig_Size_def split: if_splits)
  next
    case False
    let ?d = "take (length dAtA - length ?u) dAtA @ ?u"
    have le: "length (field_bytes 0xa (ConfigId m)) \<le> length dAtA - length ?u"
      "length dAtA - length ?u \<le> length ?d" "length ?u \<le> length dAtA"
      using assms False by (simp_all add: AdminConfig_Size_def length_field_bytes Let_def split: if_splits)
    note cf = copy_field_eq [OF le(1,2)]
    from False le assms show ?thesis
      unfolding AdminConfig_MarshalToSizedBuffer_def u
      by (simp add: cf AdminConfig_encoding_def AdminConfig_Size_def length_field_bytes Let_def
          add.commute add.left_commute)
  qed
qed

lemma Marshal_with_eq:
  assumes "fill (replicate sz 0) = Inr (take (sz - sz) (replicate sz 0) @ enc, sz)" "length enc = sz"
  shows "Marshal_with sz fill = Inr enc"
  using assms by (simp add: Marshal_with_def)

lemma AdminConfig_Marshal_eq: "AdminConfig_Marshal m = Inr (AdminConfig_encoding m)"
  unfolding AdminConfig_Marshal_def
  by (rule Marshal_with_eq)
    (simp_all add: AdminConfig_MarshalToSizedBuffer_eq length_AdminConfig_encoding)

lemma copy_unrecognized_tail:
  "length u \<le> length dAtA \<Longrightarrow>
   (if u \<noteq> [] then copy_back dAtA (length dAtA) u else Inr (dAtA, length dAtA))
     = Inr (take (length dAtA - length u) dAtA @ u, length dAtA - length u)"
  by (simp add: copy_back_eq)

lemma copy_field_tail:
  assumes "length (field_bytes tag src) + length w \<le> length dAtA"
  shows "(case copy_back (take (length dAtA - length w) dAtA @ w) (length dAtA - length w) src of
            Inl e \<Rightarrow> Inl e
          | Inr (dAtA2, i2) \<Rightarrow> put_header dAtA2 i2 (length src) tag)
     = Inr (take (length dAtA - length (field_bytes tag src @ w)) dAtA @ field_bytes tag src @ w,
            length dAtA - length (field_bytes tag src @ w))"
proof -
  let ?D = "take (length dAtA - length w) dAtA @ w"
  let ?i = "length dAtA - length w"
  have a: "length (field_bytes tag src) \<le> ?i" "?i \<le> length ?D"
    using assms by simp_all
  have t: "take (?i - length (field_bytes tag src)) ?D
      = take (length dAtA - length (field_bytes tag src @ w)) dAtA"
    using assms by (simp add: min_def add.commute)
  have d: "drop ?i ?D = w" using assms by simp
  have n: "?i - length (field_bytes tag src) = length dAtA - length (field_bytes tag src @ w)"
    by (simp add: add.commute)
  show ?thesis
    unfolding copy_field_eq [OF a] t d n by simp
qed

lemma put_nested_tail:
  assumes f: "fills fill enc"
    and le: "length (field_bytes tag enc) + length w \<le> length dAtA"
  shows "put_nested fill (take (length dAtA - length w) dAtA @ w) (length dAtA - length w) tag
     = Inr (take (length dAtA - length (field_bytes tag enc @ w)) dAtA @ field_bytes tag enc @ w,
            length dAtA - length (field_bytes tag enc @ w))"
proof -
  let ?D = "take (length dAtA - length w) dAtA @ w"
  let ?i = "length dAtA - length w"
  from le have le': "length enc \<le> ?i" by (simp add: length_field_bytes)
  have tk: "take ?i ?D = take ?i dAtA" by simp
  have "fill (take ?i ?D)
      = Inr (take (length (take ?i dAtA) - length enc) (take ?i dAtA) @ enc, length enc)"
    unfolding tk using f le' by (simp add: fills_def)
  also have "length (take ?i dAtA) = ?i" by simp
  also have "take (?i - length enc) (take ?i dAtA) = take (?i - length enc) ?D"
    by simp
  finally have f': "fill (take ?i ?D) = Inr (take (?i - length enc) ?D @ enc, length enc)" .
  have a: "length (field_bytes tag enc) \<le> ?i" "?i \<le> length ?D"
    using le by simp_all
  have t: "take (?i - length (field_bytes tag enc)) ?D
      = take (length dAtA - length (field_bytes tag enc @ w)) dAtA"
    using le by (simp add: min_def add.commute)
  have d: "drop ?i ?D = w" using le by simp
  have n: "?i - length (field_bytes tag enc) = length dAtA - length (field_bytes tag enc @ w)"
    by (simp add: add.commute)
  show ?thesis
    unfolding put_nested_eq [where fill = fill and i = "?i" and dAtA = "?D" and enc = enc and tag = tag,
        OF f' a] t d n by simp
qed

lemma fills_AdminConfig: "fills (AdminConfig_MarshalToSizedBuffer m) (AdminConfig_encoding m)"
  by (simp add: fills_def AdminConfig_MarshalToSizedBuffer_eq length_AdminConfig_encoding)

lemma ext_marshal_okD:
  "ext_marshal_ok c x \<Longrightarrow> ext_Marshal c x = Inr (ext_bytes c x) \<and> length (ext_bytes c x) = ext_Size c x"
  by (auto simp: ext_marshal_ok_def ext_bytes_def split: sum.splits)

lemma fills_ext: "ext_marshal_ok c x \<Longrightarrow> fills (ext_MarshalToSizedBuffer c x) (ext_bytes c x)"
  by (auto simp: fills_def ext_MarshalToSizedBuffer_def copy_back_eq dest!: ext_marshal_okD)

lemma length_TapDSConfig_encoding:
  "TapDSConfig_ext_ok cs m \<Longrightarrow>
   length (CommonExtensionConfig_TapDSConfig_encoding cs m)
     = CommonExtensionConfig_TapDSConfig_Size cs (Some m)"
  by (auto simp: CommonExtensionConfig_TapDSConfig_encoding_def TapDSConfig_ext_ok_def
      CommonExtensionConfig_TapDSConfig_Size_def length_field_bytes Let_def
      split: option.splits dest!: ext_marshal_okD)

lemma fills_TapDSConfig:
  assumes ok: "TapDSConfig_ext_ok cs m"
  shows "fills (CommonExtensionConfig_TapDSConfig_MarshalToSizedBuffer cs m)
           (CommonExtensionConfig_TapDSConfig_encoding cs m)"
  unfolding fills_def
proof (intro allI impI)
  fix dAtA :: "byte list"
  let ?u = "TapDSConfig_XXX_unrecognized m"
  let ?n = "if Name m \<noteq> [] then field_bytes 0x12 (Name m) else []"
  let ?c = "case ConfigSource m of Some x \<Rightarrow> field_bytes 0xa (ext_bytes cs x) | None \<Rightarrow> []"
  let ?L = "length dAtA"
  assume "length (CommonExtensionConfig_TapDSConfig_encoding cs m) \<le> ?L"
  then have le: "length ?c + length ?n + length ?u \<le> ?L"
    by (simp add: CommonExtensionConfig_TapDSConfig_encoding_def)
  have s1: "(if ?u \<noteq> [] then copy_back dAtA ?L ?u else Inr (dAtA, ?L))
      = Inr (take (?L - length ?u) dAtA @ ?u, ?L - length ?u)"
    using le by (intro copy_unrecognized_tail) simp
  have s2: "(if length (Name m) > 0
             then (case copy_back (take (?L - length ?u) dAtA @ ?u) (?L - length ?u) (Name m) of
                     Inl e \<Rightarrow> Inl e
                   | Inr (dAtA2, i2) \<Rightarrow> put_header dAtA2 i2 (length (Name m)) 0x12)
             else Inr (take (?L - length ?u) dAtA @ ?u, ?L - length ?u))
      = Inr (take (?L - length (?n @ ?u)) dAtA @ ?n @ ?u, ?L - length (?n @ ?u))"
  proof (cases "Name m = []")
    case True
    then show ?thesis by simp
  next
    case False
    with le have "length (field_bytes 0x12 (Name m)) + length ?u \<le> ?L" by simp
    from copy_field_tail [OF this] False show ?thesis by simp
  qed
  have s3: "(case ConfigSource m of
               Some x \<Rightarrow> put_nested (ext_MarshalToSizedBuffer cs x)
                           (take (?L - length (?n @ ?u)) dAtA @ ?n @ ?u) (?L - length (?n @ ?u)) 0xa
             | None \<Rightarrow> Inr (take (?L - length (?n @ ?u)) dAtA @ ?n @ ?u, ?L - length (?n @ ?u)))
      = Inr (take (?L - length (?c @ ?n @ ?u)) dAtA @ ?c @ ?n @ ?u, ?L - length (?c @ ?n @ ?u))"
  proof (cases "ConfigSource m")
    case None
    then show ?thesis by simp
  next
    case (Some x)
    with ok have f: "fills (ext_MarshalToSizedBuffer cs x) (ext_bytes cs x)"
      by (simp add: TapDSConfig_ext_ok_def fills_ext)
    from Some le have "length (field_bytes 0xa (ext_bytes cs x)) + length (?n @ ?u) \<le> ?L" by simp
    from put_nested_tail [OF f this] Some show ?thesis by simp
  qed
  have r: "?L - (?L - length (?c @ ?n @ ?u)) = length (?c @ ?n @ ?u)"
    using le by simp
  show "CommonExtensionConfig_TapDSConfig_MarshalToSizedBuffer cs m dAtA
      = Inr (take (?L - length (CommonExtensionConfig_TapDSConfig_encoding cs m)) dAtA
               @ CommonExtensionConfig_TapDSConfig_encoding cs m,
             length (CommonExtensionConfig_TapDSConfig_encoding cs m))"
    unfolding CommonExtensionConfig_TapDSConfig_MarshalToSizedBuffer_def s1 sum.case prod.case s2 s3 r
    by (simp add: CommonExtensionConfig_TapDSConfig_encoding_def)
qed

lemma Marshal_with_fills:
  "fills fill enc \<Longrightarrow> length enc = sz \<Longrightarrow> Marshal_with sz fill = Inr enc"
  by (simp add: Marshal_with_def fills_def)

lemma TapDSConfig_Marshal_eq:
  "TapDSConfig_ext_ok cs m \<Longrightarrow>
   CommonExtensionConfig_TapDSConfig_Marshal cs m
     = Inr (CommonExtensionConfig_TapDSConfig_encoding cs m)"
  unfolding CommonExtensionConfig_TapDSConfig_Marshal_def
  by (rule Marshal_with_fills) (simp_all add: fills_TapDSConfig length_TapDSConfig_encoding)

lemma put_nested_whole:
  assumes f: "fills fill enc" and le: "length (field_bytes tag enc) \<le> length dAtA"
  shows "put_nested fill dAtA (length dAtA) tag
     = Inr (take (length dAtA - length (field_bytes tag enc)) dAtA @ field_bytes tag enc,
            length dAtA - length (field_bytes tag enc))"
  using put_nested_tail [OF f, of tag "[]" dAtA] le by simp

lemma length_ConfigType_encoding:
  "ConfigType_ext_ok tc cs v \<Longrightarrow>
   length (isCommonExtensionConfig_ConfigType_encoding tc cs v)
     = isCommonExtensionConfig_ConfigType_Size tc cs v"
  by (auto simp: isCommonExtensionConfig_ConfigType_encoding_def ConfigType_ext_ok_def
      isCommonExtensionConfig_ConfigType_Size_def CommonExtensionConfig_AdminConfig_Size_def
      CommonExtensionConfig_StaticConfig_Size_def CommonExtensionConfig_TapdsConfig_Size_def
      length_field_bytes length_AdminConfig_encoding length_TapDSConfig_encoding Let_def
      split: isCommonExtensionConfig_ConfigType.splits option.splits dest!: ext_marshal_okD)

lemma length_CommonExtensionConfig_encoding:
  "CommonExtensionConfig_ext_ok tc cs m \<Longrightarrow>
   length (CommonExtensionConfig_encoding tc cs m) = CommonExtensionConfig_Size tc cs (Some m)"
  by (auto simp: CommonExtensionConfig_encoding_def CommonExtensionConfig_ext_ok_def
      CommonExtensionConfig_Size_def length_ConfigType_encoding Let_def split: option.splits)

lemma wrapper_fills:
  assumes f: "\<And>x. m = Some x \<Longrightarrow> fills (fill x) (enc x)"
  shows "fills (\<lambda>dAtA. case (case m of
                               Some x \<Rightarrow> put_nested (fill x) dAtA (length dAtA) tag
                             | None \<Rightarrow> Inr (dAtA, length dAtA)) of
                         Inl e \<Rightarrow> Inl e
                       | Inr (dAtA', i) \<Rightarrow> Inr (dAtA', length dAtA - i))
           (case m of Some x \<Rightarrow> field_bytes tag (enc x) | None \<Rightarrow> [])"
proof (cases m)
  case None
  then show ?thesis by (simp add: fills_def)
next
  case (Some x)
  from f [OF Some] have "\<And>dAtA. length (field_bytes tag (enc x)) \<le> length dAtA \<Longrightarrow>
      put_nested (fill x) dAtA (length dAtA) tag
        = Inr (take (length dAtA - length (field_bytes tag (enc x))) dAtA @ field_bytes tag (enc x),
               length dAtA - length (field_bytes tag (enc x)))"
    by (rule put_nested_whole)
  with Some show ?thesis by (simp add: fills_def)
qed

lemma fills_ConfigType_MarshalToSizedBuffer:
  assumes "ConfigType_ext_ok tc cs v" and nn: "\<not> ConfigType_nil_wrapper v"
  shows "fills (\<lambda>dAtA. case v of
                  CommonExtensionConfig_AdminConfig x \<Rightarrow>
                    CommonExtensionConfig_AdminConfig_MarshalToSizedBuffer (Some x) dAtA
                | CommonExtensionConfig_StaticConfig x \<Rightarrow>
                    CommonExtensionConfig_StaticConfig_MarshalToSizedBuffer tc (Some x) dAtA
                | CommonExtensionConfig_TapdsConfig x \<Rightarrow>
                    CommonExtensionConfig_TapdsConfig_MarshalToSizedBuffer cs (Some x) dAtA
                | CommonExtensionConfig_AdminConfig_nil \<Rightarrow>
                    CommonExtensionConfig_AdminConfig_MarshalToSizedBuffer None dAtA
                | CommonExtensionConfig_StaticConfig_nil \<Rightarrow>
                    CommonExtensionConfig_StaticConfig_MarshalToSizedBuffer tc None dAtA
                | CommonExtensionConfig_TapdsConfig_nil \<Rightarrow>
                    CommonExtensionConfig_TapdsConfig_MarshalToSizedBuffer cs None dAtA)
           (isCommonExtensionConfig_ConfigType_encoding tc cs v)"
proof (cases v)
  case (CommonExtensionConfig_AdminConfig x)
  have "fills (CommonExtensionConfig_AdminConfig_MarshalToSizedBuffer (Some x))
          (case x of Some a \<Rightarrow> field_bytes 0xa (AdminConfig_encoding a) | None \<Rightarrow> [])"
    unfolding CommonExtensionConfig_AdminConfig_MarshalToSizedBuffer_def option.case
    by (rule wrapper_fills) (rule fills_AdminConfig)
  with CommonExtensionConfig_AdminConfig show ?thesis
    by (simp add: isCommonExtensionConfig_ConfigType_encoding_def)
next
  case (CommonExtensionConfig_StaticConfig x)
  have "fills (CommonExtensionConfig_StaticConfig_MarshalToSizedBuffer tc (Some x))
          (case x of Some s \<Rightarrow> field_bytes 0x12 (ext_bytes tc s) | None \<Rightarrow> [])"
    unfolding CommonExtensionConfig_StaticConfig_MarshalToSizedBuffer_def option.case
    using assms CommonExtensionConfig_StaticConfig
    by (intro wrapper_fills fills_ext) (simp add: ConfigType_ext_ok_def)
  with CommonExtensionConfig_StaticConfig show ?thesis
    by (simp add: isCommonExtensionConfig_ConfigType_encoding_def)
next
  case (CommonExtensionConfig_TapdsConfig x)
  have "fills (CommonExtensionConfig_TapdsConfig_MarshalToSizedBuffer cs (Some x))
          (case x of Some t \<Rightarrow> field_bytes 0x1a (CommonExtensionConfig_TapDSConfig_encoding cs t)
           | None \<Rightarrow> [])"
    unfolding CommonExtensionConfig_TapdsConfig_MarshalToSizedBuffer_def option.case
    using assms CommonExtensionConfig_TapdsConfig
    by (intro wrapper_fills fills_TapDSConfig) (simp add: ConfigType_ext_ok_def)
  with CommonExtensionConfig_TapdsConfig show ?thesis
    by (simp add: isCommonExtensionConfig_ConfigType_encoding_def)
qed (use nn in \<open>simp_all add: ConfigType_nil_wrapper_def\<close>)

lemma ConfigType_MarshalTo_eq:
  assumes ok: "ConfigType_ext_ok tc cs v" and nn: "\<not> ConfigType_nil_wrapper v"
    and le: "length (isCommonExtensionConfig_ConfigType_encoding tc cs v) \<le> length dAtA"
  shows "isCommonExtensionConfig_ConfigType_MarshalTo tc cs v dAtA
     = Inr (isCommonExtensionConfig_ConfigType_encoding tc cs v
              @ drop (length (isCommonExtensionConfig_ConfigType_encoding tc cs v)) dAtA,
            length (isCommonExtensionConfig_ConfigType_encoding tc cs v))"
proof -
  let ?enc = "isCommonExtensionConfig_ConfigType_encoding tc cs v"
  have sz: "isCommonExtensionConfig_ConfigType_Size tc cs v = length ?enc"
    using ok by (simp add: length_ConfigType_encoding)
  have "length ?enc \<le> length (take (length ?enc) dAtA)" using le by simp
  with fills_ConfigType_MarshalToSizedBuffer [OF ok nn]
  have "(case v of
           CommonExtensionConfig_AdminConfig x \<Rightarrow>
             CommonExtensionConfig_AdminConfig_MarshalToSizedBuffer (Some x) (take (length ?enc) dAtA)
         | CommonExtensionConfig_StaticConfig x \<Rightarrow>
             CommonExtensionConfig_StaticConfig_MarshalToSizedBuffer tc (Some x) (take (length ?enc) dAtA)
         | CommonExtensionConfig_TapdsConfig x \<Rightarrow>
             CommonExtensionConfig_TapdsConfig_MarshalToSizedBuffer cs (Some x) (take (length ?enc) dAtA)
         | CommonExtensionConfig_AdminConfig_nil \<Rightarrow>
             CommonExtensionConfig_AdminConfig_MarshalToSizedBuffer None (take (length ?enc) dAtA)
         | CommonExtensionConfig_StaticConfig_nil \<Rightarrow>
             CommonExtensionConfig_StaticConfig_MarshalToSizedBuffer tc None (take (length ?enc) dAtA)
         | CommonExtensionConfig_TapdsConfig_nil \<Rightarrow>
             CommonExtensionConfig_TapdsConfig_MarshalToSizedBuffer cs None (take (length ?enc) dAtA))
        = Inr (take (length (take (length ?enc) dAtA) - length ?enc) (take (length ?enc) dAtA) @ ?enc,
               length ?enc)"
    unfolding fills_def by blast
  then show ?thesis
    using le unfolding isCommonExtensionConfig_ConfigType_MarshalTo_def sz Let_def
    by simp
qed

lemma fills_CommonExtensionConfig:
  assumes ok: "CommonExtensionConfig_ext_ok tc cs m" and nn: "\<not> CommonExtensionConfig_nil_wrapper m"
  shows "fills (CommonExtensionConfig_MarshalToSizedBuffer tc cs m)
           (CommonExtensionConfig_encoding tc cs m)"
  unfolding fills_def
proof (intro allI impI)
  fix dAtA :: "byte list"
  let ?u = "XXX_unrecognized m"
  let ?L = "length dAtA"
  let ?c = "case ConfigType m of Some v \<Rightarrow> isCommonExtensionConfig_ConfigType_encoding tc cs v
            | None \<Rightarrow> []"
  assume "length (CommonExtensionConfig_encoding tc cs m) \<le> ?L"
  then have le: "length ?c + length ?u \<le> ?L"
    by (simp add: CommonExtensionConfig_encoding_def)
  have s1: "(if ?u \<noteq> [] then copy_back dAtA ?L ?u else Inr (dAtA, ?L))
      = Inr (take (?L - length ?u) dAtA @ ?u, ?L - length ?u)"
    using le by (intro copy_unrecognized_tail) simp
  let ?D = "take (?L - length ?u) dAtA @ ?u"
  let ?i = "?L - length ?u"
  have s2: "(case ConfigType m of
               Some v \<Rightarrow>
                 (let sz = isCommonExtensionConfig_ConfigType_Size tc cs v in
                  if ?i < sz then Inl Panic
                  else
                    (case isCommonExtensionConfig_ConfigType_MarshalTo tc cs v (drop (?i - sz) ?D) of
                       Inl e \<Rightarrow> Inl e
                     | Inr (sub, n) \<Rightarrow> Inr (take (?i - sz) ?D @ sub, ?i - sz)))
             | None \<Rightarrow> Inr (?D, ?i))
      = Inr (take (?L - length (?c @ ?u)) dAtA @ ?c @ ?u, ?L - length (?c @ ?u))"
  proof (cases "ConfigType m")
    case None
    then show ?thesis by simp
  next
    case (Some v)
    let ?enc = "isCommonExtensionConfig_ConfigType_encoding tc cs v"
    from ok Some have okv: "ConfigType_ext_ok tc cs v"
      by (simp add: CommonExtensionConfig_ext_ok_def)
    from nn Some have nnv: "\<not> ConfigType_nil_wrapper v"
      by (simp add: CommonExtensionConfig_nil_wrapper_def)
    from okv have sz: "isCommonExtensionConfig_ConfigType_Size tc cs v = length ?enc"
      by (simp add: length_ConfigType_encoding)
    from le Some have le': "length ?enc + length ?u \<le> ?L" by simp
    then have "length ?enc \<le> length (drop (?i - length ?enc) ?D)" by simp
    note mt = ConfigType_MarshalTo_eq [OF okv nnv this]
    have dr: "drop (length ?enc) (drop (?i - length ?enc) ?D) = ?u"
      using le' by simp
    have tk: "take (?i - length ?enc) ?D = take (?L - length (?enc @ ?u)) dAtA"
      using le' by (simp add: min_def add.commute)
    have n: "?i - length ?enc = ?L - length (?enc @ ?u)" by (simp add: add.commute)
    from le' have nl: "\<not> ?i < length ?enc" by simp
    have mt': "isCommonExtensionConfig_ConfigType_MarshalTo tc cs v (drop (?i - length ?enc) ?D)
        = Inr (?enc @ ?u, length ?enc)"
      unfolding mt dr by simp
    have "(if ?i < length ?enc then Inl Panic
           else Inr (take (?i - length ?enc) ?D @ ?enc @ ?u, ?i - length ?enc))
        = Inr (take (?L - length (?enc @ ?u)) dAtA @ ?enc @ ?u, ?L - length (?enc @ ?u))"
      unfolding tk n using nl by simp
    then show ?thesis
      unfolding Some option.case sz Let_def mt' sum.case prod.case .
  qed
  have r: "?L - (?L - length (?c @ ?u)) = length (?c @ ?u)"
    using le by simp
  show "CommonExtensionConfig_MarshalToSizedBuffer tc cs m dAtA
      = Inr (take (?L - length (CommonExtensionConfig_encoding tc cs m)) dAtA
               @ CommonExtensionConfig_encoding tc cs m,
             length (CommonExtensionConfig_encoding tc cs m))"
    unfolding CommonExtensionConfig_MarshalToSizedBuffer_def s1 sum.case prod.case s2 r
    by (simp add: CommonExtensionConfig_encoding_def)
qed

lemma CommonExtensionConfig_Marshal_eq:
  "CommonExtensionConfig_ext_ok tc cs m \<Longrightarrow> \<not> CommonExtensionConfig_nil_wrapper m \<Longrightarrow>
   CommonExtensionConfig_Marshal tc cs m = Inr (CommonExtensionConfig_encoding tc cs m)"
  unfolding CommonExtensionConfig_Marshal_def
  by (rule Marshal_with_fills)
    (simp_all add: fills_CommonExtensionConfig length_CommonExtensionConfig_encoding)

text \<open>
  With the nil pointer of a wrapper type in the oneof, \<^verbatim>\<open>Size\<close> counts nothing for
  it and \<^verbatim>\<open>Marshal\<close> panics in the wrapper's \<^verbatim>\<open>MarshalToSizedBuffer\<close>.
\<close>

lemma ConfigType_nil_wrapper_cases:
  "ConfigType_nil_wrapper v \<longleftrightarrow>
     v = CommonExtensionConfig_AdminConfig_nil \<or> v = CommonExtensionConfig_StaticConfig_nil
     \<or> v = CommonExtensionConfig_TapdsConfig_nil"
  by (cases v) (simp_all add: ConfigType_nil_wrapper_def)

lemma ConfigType_nil_wrapper_Size:
  "ConfigType_nil_wrapper v \<Longrightarrow> isCommonExtensionConfig_ConfigType_Size tc cs v = 0"
  by (auto simp: ConfigType_nil_wrapper_cases isCommonExtensionConfig_ConfigType_Size_def
      CommonExtensionConfig_AdminConfig_Size_def CommonExtensionConfig_StaticConfig_Size_def
      CommonExtensionConfig_TapdsConfig_Size_def)

lemma ConfigType_nil_wrapper_MarshalTo:
  "ConfigType_nil_wrapper v \<Longrightarrow> isCommonExtensionConfig_ConfigType_MarshalTo tc cs v dAtA = Inl Panic"
  by (auto simp: ConfigType_nil_wrapper_cases isCommonExtensionConfig_ConfigType_MarshalTo_def
      isCommonExtensionConfig_ConfigType_Size_def
      CommonExtensionConfig_AdminConfig_Size_def CommonExtensionConfig_StaticConfig_Size_def
      CommonExtensionConfig_TapdsConfig_Size_def
      CommonExtensionConfig_AdminConfig_MarshalToSizedBuffer_def
      CommonExtensionConfig_StaticConfig_MarshalToSizedBuffer_def
      CommonExtensionConfig_TapdsConfig_MarshalToSizedBuffer_def)

lemma CommonExtensionConfig_nil_wrapper_Size:
  "CommonExtensionConfig_nil_wrapper m \<Longrightarrow>
   CommonExtensionConfig_Size tc cs (Some m) = length (XXX_unrecognized m)"
  by (auto simp: CommonExtensionConfig_nil_wrapper_def CommonExtensionConfig_Size_def
      ConfigType_nil_wrapper_Size split: option.splits)

lemma CommonExtensionConfig_nil_wrapper_Marshal:
  assumes "CommonExtensionConfig_nil_wrapper m"
  shows "CommonExtensionConfig_Marshal tc cs m = Inl Panic"
proof -
  from assms obtain v where v: "ConfigType m = Some v" "ConfigType_nil_wrapper v"
    by (auto simp: CommonExtensionConfig_nil_wrapper_def split: option.splits)
  let ?u = "XXX_unrecognized m"
  let ?b = "replicate (length ?u) (0 :: byte)"
  have c: "(if ?u \<noteq> [] then copy_back ?b (length ?b) ?u else Inr (?b, length ?b)) = Inr (?u, 0)"
    using copy_unrecognized_tail [of ?u ?b] by simp
  have "CommonExtensionConfig_MarshalToSizedBuffer tc cs m ?b = Inl Panic"
    using c unfolding CommonExtensionConfig_MarshalToSizedBuffer_def
    by (simp add: v ConfigType_nil_wrapper_Size ConfigType_nil_wrapper_MarshalTo)
  then show ?thesis
    by (simp add: CommonExtensionConfig_Marshal_def Marshal_with_def
        CommonExtensionConfig_nil_wrapper_Size [OF assms])
qed

text \<open>The getters of the oneof at their own variant: the field of the wrapper, or a panic.\<close>

lemma oneof_getters_own_variant:
  "GetAdminConfig (Some (m\<lparr>ConfigType := Some (CommonExtensionConfig_AdminConfig a)\<rparr>)) = Inr a"
  "GetStaticConfig (Some (m\<lparr>ConfigType := Some (CommonExtensionConfig_StaticConfig s)\<rparr>)) = Inr s"
  "GetTapdsConfig (Some (m\<lparr>ConfigType := Some (CommonExtensionConfig_TapdsConfig t)\<rparr>)) = Inr t"
  "GetAdminConfig (Some (m\<lparr>ConfigType := Some CommonExtensionConfig_AdminConfig_nil\<rparr>)) = Inl Panic"
  "GetStaticConfig (Some (m\<lparr>ConfigType := Some CommonExtensionConfig_StaticConfig_nil\<rparr>)) = Inl Panic"
  "GetTapdsConfig (Some (m\<lparr>ConfigType := Some CommonExtensionConfig_TapdsConfig_nil\<rparr>)) = Inl Panic"
  by (simp_all add: GetAdminConfig_def GetStaticConfig_def GetTapdsConfig_def GetConfigType_def)

section \<open>Reading back what was written\<close>

text \<open>
  The varint reader inverts \<open>varint_bytes\<close> and does not depend on what stands before
  or after the varint; from this, each decoding loop reads a field that was written at any
  place of a buffer, and reads a run of unknown fields into the unrecognized bytes.
\<close>

lemma decode_varint_step:
  "shift < 64 \<Longrightarrow> iNdEx < length dAtA \<Longrightarrow>
   decode_varint dAtA iNdEx shift wire =
     (if dAtA ! iNdEx < 0x80
      then Inr (wire OR push_bit shift (ucast (dAtA ! iNdEx AND 0x7F)), iNdEx + 1)
      else decode_varint dAtA (iNdEx + 1) (shift + 7)
             (wire OR push_bit shift (ucast (dAtA ! iNdEx AND 0x7F))))"
  by (subst decode_varint.simps) (simp add: Let_def)

lemma decode_varint_overflow: "64 \<le> shift \<Longrightarrow> decode_varint dAtA iNdEx shift wire = Inl ErrIntOverflowCommon"
  by (subst decode_varint.simps) simp

lemma decode_varint_eof:
  "shift < 64 \<Longrightarrow> length dAtA \<le> iNdEx \<Longrightarrow> decode_varint dAtA iNdEx shift wire = Inl ErrUnexpectedEOF"
  by (subst decode_varint.simps) simp

lemma decode_varint_append:
  "decode_varint dAtA iNdEx shift wire = Inr (v, j) \<Longrightarrow>
   decode_varint (pre @ dAtA @ post) (length pre + iNdEx) shift wire = Inr (v, length pre + j)"
proof (induction dAtA iNdEx shift wire rule: decode_varint.induct)
  case (1 dAtA iNdEx shift wire)
  from "1.prems" have a: "\<not> 64 \<le> shift" "\<not> length dAtA \<le> iNdEx"
    by (auto simp: decode_varint.simps [of dAtA iNdEx shift wire] split: if_splits)
  then have nth: "(pre @ dAtA @ post) ! (length pre + iNdEx) = dAtA ! iNdEx"
    "(dAtA @ post) ! iNdEx = dAtA ! iNdEx"
    by (simp_all add: nth_append)
  from a have lt: "shift < 64" "iNdEx < length dAtA" "length pre + iNdEx < length (pre @ dAtA @ post)"
    by simp_all
  show ?case
  proof (cases "dAtA ! iNdEx < 0x80")
    case True
    with "1.prems" lt show ?thesis
      by (simp add: decode_varint_step nth)
  next
    case False
    with "1.prems" lt have "decode_varint dAtA (iNdEx + 1) (shift + 7)
        (wire OR push_bit shift (ucast (dAtA ! iNdEx AND 0x7F))) = Inr (v, j)"
      by (simp add: decode_varint_step)
    from "1.IH" [OF a refl refl False this] False lt(1,3) show ?thesis
      by (simp add: decode_varint_step [OF lt(1,3)] nth)
  qed
qed

lemma decode_varint_take:
  "decode_varint dAtA iNdEx shift wire = Inr (v, j) \<Longrightarrow>
   decode_varint (take n dAtA) iNdEx shift wire
     = (if j \<le> n then Inr (v, j) else Inl ErrUnexpectedEOF)"
proof (induction dAtA iNdEx shift wire rule: decode_varint.induct)
  case (1 dAtA iNdEx shift wire)
  from "1.prems" have a: "\<not> 64 \<le> shift" "\<not> length dAtA \<le> iNdEx"
    by (auto simp: decode_varint.simps [of dAtA iNdEx shift wire] split: if_splits)
  then have lt: "shift < 64" "iNdEx < length dAtA" by simp_all
  from "1.prems" have ij: "iNdEx < j" by (auto dest: decode_varint_bounds)
  show ?case
  proof (cases "iNdEx < n")
    case False
    with ij lt show ?thesis by (simp add: decode_varint_eof)
  next
    case n: True
    with lt have lt': "iNdEx < length (take n dAtA)" and nth: "take n dAtA ! iNdEx = dAtA ! iNdEx"
      by simp_all
    show ?thesis
    proof (cases "dAtA ! iNdEx < 0x80")
      case True
      with "1.prems" lt n show ?thesis
        by (auto simp: decode_varint_step [OF lt(1) lt'] decode_varint_step [OF lt] nth)
    next
      case False
      with "1.prems" lt have "decode_varint dAtA (iNdEx + 1) (shift + 7)
          (wire OR push_bit shift (ucast (dAtA ! iNdEx AND 0x7F))) = Inr (v, j)"
        by (simp add: decode_varint_step)
      from "1.IH" [OF a refl refl False this] False show ?thesis
        by (simp add: decode_varint_step [OF lt(1) lt'] nth)
    qed
  qed
qed

lemma decode_varint_drop:
  "decode_varint dAtA (k + iNdEx) shift wire = Inr (v, j) \<Longrightarrow>
   decode_varint (drop k dAtA) iNdEx shift wire = Inr (v, j - k)"
proof (induction "drop k dAtA" iNdEx shift wire arbitrary: rule: decode_varint.induct)
  case (1 iNdEx shift wire)
  from "1.prems" have a: "\<not> 64 \<le> shift" "\<not> length dAtA \<le> k + iNdEx"
    by (auto simp: decode_varint.simps [of dAtA "k + iNdEx" shift wire] split: if_splits)
  then have lt: "shift < 64" "k + iNdEx < length dAtA" "iNdEx < length (drop k dAtA)"
    and nth: "drop k dAtA ! iNdEx = dAtA ! (k + iNdEx)"
    by simp_all
  have a': "\<not> 64 \<le> shift" "\<not> length (drop k dAtA) \<le> iNdEx" using lt by simp_all
  show ?case
  proof (cases "dAtA ! (k + iNdEx) < 0x80")
    case True
    with "1.prems" lt show ?thesis
      by (auto simp: decode_varint_step [OF lt(1,3)] decode_varint_step [OF lt(1,2)] nth)
  next
    case False
    with "1.prems" lt have "decode_varint dAtA (k + (iNdEx + 1)) (shift + 7)
        (wire OR push_bit shift (ucast (dAtA ! (k + iNdEx) AND 0x7F))) = Inr (v, j)"
      by (simp add: decode_varint_step add.assoc)
    with "1.hyps" [OF a' refl refl] False nth show ?thesis
      by (simp add: decode_varint_step [OF lt(1,3)])
  qed
qed

lemma numeral_7f_eq_mask: "(0x7f :: 'a::len word) = mask 7" by (simp add: mask_eq_exp_minus_1)

lemma bit_numeral_128: "bit (128 :: 'a::len word) n \<longleftrightarrow> n = 7 \<and> n < LENGTH('a)"
  using bit_exp_iff [of 7 n, where ?'a = "'a word"] by (auto simp: possible_bit_word)

lemma bit_numeral_128_int: "bit (128 :: int) n \<longleftrightarrow> n = 7"
  using bit_exp_iff [of 7 n, where ?'a = int] by auto

lemma ucast_small_less_128: "v < 128 \<Longrightarrow> (ucast (v :: 64 word) :: byte) < 0x80"
  by (simp add: word_less_nat_alt unsigned_ucast_eq take_bit_eq_mod)

lemma ucast_small_and_7f: "v < 128 \<Longrightarrow> (ucast ((ucast (v :: 64 word) :: byte) AND 0x7F) :: 64 word) = v"
proof -
  assume "v < 128"
  then have "v < 2 ^ 7" by simp
  then have v: "v AND mask 7 = v" by (rule less_mask_eq)
  have "(ucast ((ucast (v AND mask 7) :: byte) AND mask 7) :: 64 word) = v AND mask 7"
    by (rule bit_word_eqI) (auto simp: bit_simps)
  then show ?thesis by (simp add: v numeral_7f_eq_mask)
qed

lemma continuation_byte_not_less_128: "\<not> (ucast ((v :: 64 word) AND 0x7f OR 0x80) :: byte) < 0x80"
proof -
  have "(ucast (v AND 0x7f OR 0x80) :: byte) = 0x80 OR ucast (v AND 0x7f)"
    unfolding numeral_7f_eq_mask by (rule bit_word_eqI) (auto simp: bit_simps bit_numeral_128)
  moreover have "(0x80 :: byte) \<le> 0x80 OR ucast (v AND 0x7f)" by (rule le_word_or2)
  ultimately show ?thesis by (simp add: not_less)
qed

lemma continuation_byte_and_7f: "(ucast ((ucast ((v :: 64 word) AND 0x7f OR 0x80) :: byte) AND 0x7F) :: 64 word) = v AND 0x7f"
proof -
  have "(ucast (v AND 0x7f OR 0x80) :: byte) AND 0x7F = ucast (v AND mask 7)"
    unfolding numeral_7f_eq_mask
  proof (rule bit_word_eqI)
    fix n assume "n < LENGTH(8)"
    show "bit ((ucast (v AND mask 7 OR 128) :: byte) AND mask 7) n
        = bit (ucast (v AND mask 7) :: byte) n"
      by (cases "n < 7") (simp_all add: bit_simps bit_numeral_128 bit_numeral_128_int)
  qed
  moreover have "(ucast (ucast (v AND mask 7) :: byte) :: 64 word) = v AND mask 7"
    by (rule bit_word_eqI) (auto simp: bit_simps)
  ultimately show ?thesis by (simp add: numeral_7f_eq_mask)
qed

lemma low_7_or_high_bits: "((v :: 64 word) AND mask 7) OR push_bit 7 (drop_bit 7 v) = v"
proof (rule bit_word_eqI)
  fix n assume "n < LENGTH(64)"
  show "bit ((v AND mask 7) OR push_bit 7 (drop_bit 7 v)) n = bit v n"
  proof (cases "n < 7")
    case True
    then show ?thesis by (simp add: bit_simps)
  next
    case False
    then have "7 + (n - 7) = n" by simp
    with False \<open>n < LENGTH(64)\<close> show ?thesis by (simp add: bit_simps)
  qed
qed

lemma push_bit_low_high_7: "push_bit s ((v :: 64 word) AND 0x7f) OR push_bit (s + 7) (drop_bit 7 v) = push_bit s v"
proof -
  have "push_bit s (v AND mask 7) OR push_bit (s + 7) (drop_bit 7 v)
      = push_bit s ((v AND mask 7) OR push_bit 7 (drop_bit 7 v))"
    by (simp add: add.commute)
  then show ?thesis by (simp only: low_7_or_high_bits numeral_7f_eq_mask)
qed

lemma decode_varint_bytes_gen:
  "shift < 64 \<Longrightarrow> unat v < 2 ^ (64 - shift) \<Longrightarrow>
   decode_varint (pre @ varint_bytes v @ post) (length pre) shift w
     = Inr (w OR push_bit shift v, length pre + sovCommon v)"
proof (induction v arbitrary: pre shift w rule: varint_bytes.induct)
  case (1 v)
  show ?case
  proof (cases "128 \<le> v")
    case False
    then have v: "v < 128" by simp
    have vb: "varint_bytes v = [ucast v]" using False by (subst varint_bytes.simps) simp
    have lt: "length pre < length (pre @ varint_bytes v @ post)" by (simp add: vb)
    show ?thesis
      using v by (subst decode_varint_step [OF "1.prems"(1) lt]) (simp add: vb ucast_small_less_128 ucast_small_and_7f sovCommon_small)
  next
    case True
    let ?b = "ucast (v AND 0x7f OR 0x80) :: byte"
    have vb: "varint_bytes v = ?b # varint_bytes (drop_bit 7 v)"
      using True by (subst varint_bytes.simps) simp
    have lt: "length pre < length (pre @ varint_bytes v @ post)" by (simp add: vb)
    from True have u: "2 ^ 7 \<le> unat v" by (simp add: word_le_nat_alt)
    with "1.prems"(2) have "(2::nat) ^ 7 < 2 ^ (64 - shift)" by simp
    then have s: "7 < 64 - shift" by (rule power_less_imp_less_exp [rotated]) simp
    then have s': "shift + 7 < 64" by simp
    have e: "64 - shift = 7 + (64 - (shift + 7))" using s by simp
    have "(2::nat) ^ (64 - shift) = 2 ^ 7 * 2 ^ (64 - (shift + 7))"
      by (subst e) (simp only: power_add)
    with "1.prems"(2) have "unat v div 2 ^ 7 < 2 ^ (64 - (shift + 7))"
      by (simp add: less_mult_imp_div_less mult.commute)
    then have d: "unat (drop_bit 7 v) < 2 ^ (64 - (shift + 7))"
      by (simp add: drop_bit_eq_div unat_div)
    have ih: "decode_varint ((pre @ [?b]) @ varint_bytes (drop_bit 7 v) @ post) (length (pre @ [?b]))
        (shift + 7) (w OR push_bit shift (v AND 0x7f))
      = Inr ((w OR push_bit shift (v AND 0x7f)) OR push_bit (shift + 7) (drop_bit 7 v),
             length (pre @ [?b]) + sovCommon (drop_bit 7 v))"
      by (rule "1.IH" [OF True s' d])
    have "(w OR push_bit shift (v AND 0x7f)) OR push_bit (shift + 7) (drop_bit 7 v) = w OR push_bit shift v"
      by (simp only: or.assoc push_bit_low_high_7)
    with ih show ?thesis
      using True by (subst decode_varint_step [OF "1.prems"(1) lt]) (simp add: vb continuation_byte_not_less_128 continuation_byte_and_7f sovCommon_large)
  qed
qed

lemma decode_varint_bytes:
  "decode_varint (pre @ varint_bytes v @ post) (length pre) 0 0 = Inr (v, length pre + sovCommon v)"
proof -
  have "unat v < 2 ^ (64 - 0)" using unsigned_less [of v, where ?'a = nat] by simp
  from decode_varint_bytes_gen [OF _ this, of pre post 0] show ?thesis by simp
qed

lemma sint_word_of_nat: "n < 2 ^ 63 \<Longrightarrow> sint (word_of_nat n :: 64 word) = int n"
proof -
  assume n: "n < 2 ^ 63"
  then have "n < 2 ^ 64" by simp
  then have "take_bit 64 n = n" by (simp add: take_bit_nat_eq_self)
  then have u: "uint (word_of_nat n :: 64 word) = int n"
    by (simp add: unsigned_of_nat)
  from n have "int n < int (2 ^ 63)" by (simp only: of_nat_less_iff)
  then have "int n < 2 ^ 63" by simp
  then show ?thesis
    by (simp add: sint_uint u signed_take_bit_int_eq_self)
qed

lemma and_7f_small: "(t :: byte) < 0x80 \<Longrightarrow> t AND 0x7F = t"
proof -
  assume "t < 0x80"
  then have "t < 2 ^ 7" by simp
  then have "t AND mask 7 = t" by (rule less_mask_eq)
  then show ?thesis by (simp add: numeral_7f_eq_mask)
qed

lemma decode_tag:
  "t < 0x80 \<Longrightarrow> decode_varint (pre @ t # post) (length pre) 0 0 = Inr (ucast t, Suc (length pre))"
  by (subst decode_varint_step) (simp_all add: and_7f_small)

lemma add_length_of_nat:
  "i + n < 2 ^ 63 \<Longrightarrow> add_length i (word_of_nat n) = Inr (i + n)"
  by (simp add: add_length_def sint_word_of_nat)

lemma field_header:
  fixes pre payload post :: "byte list" and t :: byte
  defines "d \<equiv> pre @ field_bytes t payload @ post"
  defines "s \<equiv> sovCommon (word_of_nat (length payload))"
  assumes t: "t < 0x80" and L: "length d < 2 ^ 63"
  shows "decode_varint d (length pre) 0 0 = Inr (ucast t, Suc (length pre))"
    and "read_length d (Suc (length pre))
           = Inr (Suc (length pre + s), length pre + length (field_bytes t payload))"
    and "slice d (Suc (length pre + s)) (length pre + length (field_bytes t payload)) = payload"
proof -
  show "decode_varint d (length pre) 0 0 = Inr (ucast t, Suc (length pre))"
    unfolding d_def field_bytes_def using t by (simp add: decode_tag)
  have d': "d = (pre @ [t]) @ varint_bytes (word_of_nat (length payload)) @ (payload @ post)"
    by (simp add: d_def field_bytes_def)
  have dv: "decode_varint d (Suc (length pre)) 0 0
      = Inr (word_of_nat (length payload), Suc (length pre) + s)"
    using decode_varint_bytes [of "pre @ [t]" "word_of_nat (length payload)" "payload @ post"]
    by (simp add: d' s_def)
  have len: "length d = Suc (length pre) + s + length payload + length post"
    by (simp add: d' s_def length_varint_bytes)
  with L have "Suc (length pre) + s + length payload < 2 ^ 63" by simp
  then have al: "add_length (Suc (length pre) + s) (word_of_nat (length payload))
      = Inr (Suc (length pre) + s + length payload)"
    by (rule add_length_of_nat)
  show "read_length d (Suc (length pre))
           = Inr (Suc (length pre + s), length pre + length (field_bytes t payload))"
    unfolding read_length_def dv using al len
    by (simp add: length_field_bytes s_def)
  show "slice d (Suc (length pre + s)) (length pre + length (field_bytes t payload)) = payload"
    by (simp add: slice_def d' length_field_bytes s_def length_varint_bytes)
qed

lemma tag_numbers:
  "fieldNum_of 0x0a = 1" "wireType_of 0x0a = 2"
  "fieldNum_of 0x12 = 2" "wireType_of 0x12 = 2"
  "fieldNum_of 0x1a = 3" "wireType_of 0x1a = 2"
  by (simp_all add: fieldNum_of_def wireType_of_def)

lemma unknown_fields_step:
  assumes "unknown_fields known dAtA iNdEx" "iNdEx < length dAtA"
  obtains wire iNdEx' skippy where
    "decode_varint dAtA iNdEx 0 0 = Inr (wire, iNdEx')"
    "wireType_of wire \<noteq> 4" "0 < fieldNum_of wire" "fieldNum_of wire \<notin> set known"
    "skip_unknown dAtA iNdEx = Inr skippy" "unknown_fields known dAtA (iNdEx + skippy)"
  using assms
  by (subst (asm) unknown_fields.simps) (auto split: sum.splits if_splits)

lemma unknown_fields_end: "length dAtA \<le> iNdEx \<Longrightarrow> unknown_fields known dAtA iNdEx"
  by (subst unknown_fields.simps) simp

lemma slice_append_drop: "slice d i (i + k) @ drop (i + k) d = drop i d"
proof -
  have a: "drop (i + k) d = drop k (drop i d)" by (simp add: add.commute)
  show ?thesis
    unfolding slice_def a by (simp only: add_diff_cancel_left' append_take_drop_id)
qed

lemma int_less_2p63: "n < 2 ^ 63 \<Longrightarrow> int n < 2 ^ 63"
proof -
  assume "n < 2 ^ 63"
  then have "int n < int (2 ^ 63)" by (simp only: of_nat_less_iff)
  then show ?thesis by simp
qed

lemma skip_unknown_append:
  assumes "skip_unknown u i = Inr k" "length (pre @ u) < 2 ^ 63"
  shows "skip_unknown (pre @ u) (length pre + i) = Inr k"
proof -
  from assms(1) have b: "i + k \<le> length u" by (auto dest: skip_unknown_bounds)
  from assms(1) have s: "skipCommon (drop i u) = Inr k"
    by (auto simp: skip_unknown_def split: sum.splits if_splits)
  from b assms(2) have "length pre + i + k < 2 ^ 63" by simp
  then have "int (length pre + i + k) < 2 ^ 63" by (rule int_less_2p63)
  then have "\<not> 2 ^ 63 \<le> int (length pre + i) + int k" by simp
  with b s show ?thesis
    by (simp add: skip_unknown_def)
qed

lemma unknown_fields_append:
  "unknown_fields known u i \<Longrightarrow> length (pre @ u) < 2 ^ 63 \<Longrightarrow>
   unknown_fields known (pre @ u) (length pre + i)"
proof (induction known u i rule: unknown_fields.induct)
  case (1 known u i)
  show ?case
  proof (cases "i < length u")
    case False
    then show ?thesis by (simp add: unknown_fields_end)
  next
    case True
    from unknown_fields_step [OF "1.prems"(1) True] obtain wire i' k where
      dv: "decode_varint u i 0 0 = Inr (wire, i')" and
      w: "wireType_of wire \<noteq> 4" "0 < fieldNum_of wire" "fieldNum_of wire \<notin> set known" and
      sk: "skip_unknown u i = Inr k" and rest: "unknown_fields known u (i + k)"
      by blast
    from w have w': "\<not> (wireType_of wire = 4 \<or> fieldNum_of wire \<le> 0 \<or> fieldNum_of wire \<in> set known)"
      by simp
    have ih: "unknown_fields known (pre @ u) (length pre + (i + k))"
      by (rule "1.IH" [OF True dv refl w' sk rest "1.prems"(2)])
    have dv': "decode_varint (pre @ u) (length pre + i) 0 0 = Inr (wire, length pre + i')"
      using decode_varint_append [OF dv, of pre "[]"] by simp
    have sk': "skip_unknown (pre @ u) (length pre + i) = Inr k"
      by (rule skip_unknown_append [OF sk "1.prems"(2)])
    from True w ih show ?thesis
      by (subst unknown_fields.simps) (simp add: dv' sk' add.assoc)
  qed
qed

lemma AdminConfig_Unmarshal_loop_unknown:
  "unknown_fields [1] d i \<Longrightarrow> i \<le> length d \<Longrightarrow>
   AdminConfig_Unmarshal_loop m d i
     = Inr (m\<lparr>AdminConfig_XXX_unrecognized := AdminConfig_XXX_unrecognized m @ drop i d\<rparr>)"
proof (induction "[1::int]" d i arbitrary: m rule: unknown_fields.induct)
  case (1 d i)
  show ?case
  proof (cases "i < length d")
    case False
    with "1.prems" show ?thesis by (subst AdminConfig_Unmarshal_loop.simps) simp
  next
    case True
    from unknown_fields_step [OF "1.prems"(1) True] obtain wire i' k where
      dv: "decode_varint d i 0 0 = Inr (wire, i')" and
      w: "wireType_of wire \<noteq> 4" "0 < fieldNum_of wire" "fieldNum_of wire \<notin> set [1]" and
      sk: "skip_unknown d i = Inr k" and rest: "unknown_fields [1] d (i + k)"
      by blast
    from w have w': "\<not> (wireType_of wire = 4 \<or> fieldNum_of wire \<le> 0 \<or> fieldNum_of wire \<in> set [1])"
      by simp
    from sk have b: "i + k \<le> length d" by (auto dest: skip_unknown_bounds)
    have ih: "AdminConfig_Unmarshal_loop
        (m\<lparr>AdminConfig_XXX_unrecognized := AdminConfig_XXX_unrecognized m @ slice d i (i + k)\<rparr>) d (i + k)
      = Inr (m\<lparr>AdminConfig_XXX_unrecognized :=
               (AdminConfig_XXX_unrecognized m @ slice d i (i + k)) @ drop (i + k) d\<rparr>)"
      using "1.hyps" [OF True dv refl w' sk rest b] by simp
    from True w show ?thesis
      by (subst AdminConfig_Unmarshal_loop.simps) (simp add: dv sk ih slice_append_drop)
  qed
qed

lemma AdminConfig_Unmarshal_loop_field:
  assumes "length (pre @ field_bytes 0xa payload @ post) < 2 ^ 63"
  shows "AdminConfig_Unmarshal_loop m (pre @ field_bytes 0xa payload @ post) (length pre)
     = AdminConfig_Unmarshal_loop (m\<lparr>ConfigId := payload\<rparr>) (pre @ field_bytes 0xa payload @ post)
         (length pre + length (field_bytes 0xa payload))"
proof -
  have t: "(0xa :: byte) < 0x80" by simp
  note h = field_header [OF t assms]
  have lt: "length pre < length (pre @ field_bytes 0xa payload @ post)"
    by (simp add: field_bytes_def)
  show ?thesis
    by (subst AdminConfig_Unmarshal_loop.simps) (simp add: h tag_numbers lt del: append_assoc length_append)
qed

lemma AdminConfig_round_trip:
  assumes u: "unknown_fields [1] (AdminConfig_XXX_unrecognized m) 0"
    and L: "length (AdminConfig_encoding m) < 2 ^ 63"
  shows "AdminConfig_Unmarshal AdminConfig_new (AdminConfig_encoding m) = Inr m"
proof (cases "ConfigId m = []")
  case True
  with u show ?thesis
    by (simp add: AdminConfig_Unmarshal_def AdminConfig_encoding_def
        AdminConfig_Unmarshal_loop_unknown AdminConfig_new_def)
next
  case False
  let ?f = "field_bytes 0xa (ConfigId m)"
  let ?u = "AdminConfig_XXX_unrecognized m"
  from False have e: "AdminConfig_encoding m = [] @ ?f @ ?u"
    by (simp add: AdminConfig_encoding_def)
  from L have L': "length ([] @ ?f @ ?u) < 2 ^ 63" by (simp only: e)
  then have L'': "length (?f @ ?u) < 2 ^ 63" by simp
  have "unknown_fields [1] (?f @ ?u) (length ?f + 0)"
    by (rule unknown_fields_append [OF u L''])
  then have "AdminConfig_Unmarshal_loop (AdminConfig_new\<lparr>ConfigId := ConfigId m\<rparr>) (?f @ ?u) (length ?f)
      = Inr (AdminConfig_new\<lparr>ConfigId := ConfigId m,
               AdminConfig_XXX_unrecognized := [] @ drop (length ?f) (?f @ ?u)\<rparr>)"
    by (simp add: AdminConfig_Unmarshal_loop_unknown AdminConfig_new_def)
  with AdminConfig_Unmarshal_loop_field [OF L', of AdminConfig_new] show ?thesis
    by (simp add: AdminConfig_Unmarshal_def e AdminConfig_new_def)
qed

lemma TapDSConfig_Unmarshal_loop_unknown:
  "unknown_fields [1, 2] d i \<Longrightarrow> i \<le> length d \<Longrightarrow>
   CommonExtensionConfig_TapDSConfig_Unmarshal_loop cs m d i
     = Inr (m\<lparr>TapDSConfig_XXX_unrecognized := TapDSConfig_XXX_unrecognized m @ drop i d\<rparr>)"
proof (induction "[1::int, 2]" d i arbitrary: m rule: unknown_fields.induct)
  case (1 d i)
  show ?case
  proof (cases "i < length d")
    case False
    with "1.prems" show ?thesis by (subst CommonExtensionConfig_TapDSConfig_Unmarshal_loop.simps) simp
  next
    case True
    from unknown_fields_step [OF "1.prems"(1) True] obtain wire i' k where
      dv: "decode_varint d i 0 0 = Inr (wire, i')" and
      w: "wireType_of wire \<noteq> 4" "0 < fieldNum_of wire" "fieldNum_of wire \<notin> set [1, 2]" and
      sk: "skip_unknown d i = Inr k" and rest: "unknown_fields [1, 2] d (i + k)"
      by blast
    from w have w': "\<not> (wireType_of wire = 4 \<or> fieldNum_of wire \<le> 0 \<or> fieldNum_of wire \<in> set [1, 2])"
      by simp
    from sk have b: "i + k \<le> length d" by (auto dest: skip_unknown_bounds)
    have ih: "CommonExtensionConfig_TapDSConfig_Unmarshal_loop cs
        (m\<lparr>TapDSConfig_XXX_unrecognized := TapDSConfig_XXX_unrecognized m @ slice d i (i + k)\<rparr>) d (i + k)
      = Inr (m\<lparr>TapDSConfig_XXX_unrecognized :=
               (TapDSConfig_XXX_unrecognized m @ slice d i (i + k)) @ drop (i + k) d\<rparr>)"
      using "1.hyps" [OF True dv refl w' sk rest b] by simp
    from True w show ?thesis
      by (subst CommonExtensionConfig_TapDSConfig_Unmarshal_loop.simps)
        (simp add: dv sk ih slice_append_drop)
  qed
qed

lemma TapDSConfig_Unmarshal_loop_field1:
  assumes "length (pre @ field_bytes 0xa payload @ post) < 2 ^ 63"
    and "ext_Unmarshal cs (case ConfigSource m of None \<Rightarrow> ext_new cs | Some x \<Rightarrow> x) payload = Inr x"
  shows "CommonExtensionConfig_TapDSConfig_Unmarshal_loop cs m (pre @ field_bytes 0xa payload @ post) (length pre)
     = CommonExtensionConfig_TapDSConfig_Unmarshal_loop cs (m\<lparr>ConfigSource := Some x\<rparr>)
         (pre @ field_bytes 0xa payload @ post) (length pre + length (field_bytes 0xa payload))"
proof -
  have t: "(0xa :: byte) < 0x80" by simp
  note h = field_header [OF t assms(1)]
  have lt: "length pre < length (pre @ field_bytes 0xa payload @ post)"
    by (simp add: field_bytes_def)
  show ?thesis
    by (subst CommonExtensionConfig_TapDSConfig_Unmarshal_loop.simps)
      (simp add: h tag_numbers lt assms(2) del: append_assoc length_append)
qed

lemma TapDSConfig_Unmarshal_loop_field2:
  assumes "length (pre @ field_bytes 0x12 payload @ post) < 2 ^ 63"
  shows "CommonExtensionConfig_TapDSConfig_Unmarshal_loop cs m (pre @ field_bytes 0x12 payload @ post) (length pre)
     = CommonExtensionConfig_TapDSConfig_Unmarshal_loop cs (m\<lparr>Name := payload\<rparr>)
         (pre @ field_bytes 0x12 payload @ post) (length pre + length (field_bytes 0x12 payload))"
proof -
  have t: "(0x12 :: byte) < 0x80" by simp
  note h = field_header [OF t assms(1)]
  have lt: "length pre < length (pre @ field_bytes 0x12 payload @ post)"
    by (simp add: field_bytes_def)
  show ?thesis
    by (subst CommonExtensionConfig_TapDSConfig_Unmarshal_loop.simps)
      (simp add: h tag_numbers lt del: append_assoc length_append)
qed

lemma TapDSConfig_round_trip:
  fixes m :: "'cs CommonExtensionConfig_TapDSConfig"
  assumes u: "unknown_fields [1, 2] (TapDSConfig_XXX_unrecognized m) 0"
    and L: "length (CommonExtensionConfig_TapDSConfig_encoding cs m) < 2 ^ 63"
    and x: "case ConfigSource m of None \<Rightarrow> True | Some x \<Rightarrow> ext_round_trip cs x"
  shows "CommonExtensionConfig_TapDSConfig_Unmarshal cs CommonExtensionConfig_TapDSConfig_new
           (CommonExtensionConfig_TapDSConfig_encoding cs m) = Inr m"
proof -
  define u where "u = TapDSConfig_XXX_unrecognized m"
  define n where "n = (if Name m \<noteq> [] then field_bytes 0x12 (Name m) else [])"
  define c where "c = (case ConfigSource m of Some x \<Rightarrow> field_bytes 0xa (ext_bytes cs x) | None \<Rightarrow> [])"
  define d where "d = c @ n @ u"
  define m0 :: "'cs CommonExtensionConfig_TapDSConfig"
    where "m0 = CommonExtensionConfig_TapDSConfig_new"
  define m1 where "m1 = m0\<lparr>ConfigSource := ConfigSource m\<rparr>"
  define m2 where "m2 = m1\<lparr>Name := Name m\<rparr>"
  let ?loop = "CommonExtensionConfig_TapDSConfig_Unmarshal_loop cs"
  have e: "CommonExtensionConfig_TapDSConfig_encoding cs m = d"
    by (simp add: CommonExtensionConfig_TapDSConfig_encoding_def d_def c_def n_def u_def)
  from L have Ld: "length d < 2 ^ 63" by (simp only: e)
  have s1: "?loop m0 d 0 = ?loop m1 d (length c)"
  proof (cases "ConfigSource m")
    case None
    then have "c = []" "m1 = m0"
      by (simp_all add: c_def m1_def m0_def CommonExtensionConfig_TapDSConfig_new_def)
    then show ?thesis by simp
  next
    case (Some x)
    then have c: "c = field_bytes 0xa (ext_bytes cs x)" by (simp add: c_def)
    from Some x have r: "ext_Unmarshal cs (case ConfigSource m0 of None \<Rightarrow> ext_new cs | Some x \<Rightarrow> x)
        (ext_bytes cs x) = Inr x"
      by (simp add: ext_round_trip_def m0_def CommonExtensionConfig_TapDSConfig_new_def)
    from Ld have "length ([] @ field_bytes 0xa (ext_bytes cs x) @ (n @ u)) < 2 ^ 63"
      by (simp add: d_def c)
    from TapDSConfig_Unmarshal_loop_field1 [OF this r] show ?thesis
      by (simp add: d_def c m1_def Some)
  qed
  have s2: "?loop m1 d (length c) = ?loop m2 d (length (c @ n))"
  proof (cases "Name m = []")
    case True
    then have "n = []" "m2 = m1"
      by (simp_all add: n_def m2_def m1_def m0_def CommonExtensionConfig_TapDSConfig_new_def)
    then show ?thesis by simp
  next
    case False
    then have n: "n = field_bytes 0x12 (Name m)" by (simp add: n_def)
    from Ld have "length (c @ field_bytes 0x12 (Name m) @ u) < 2 ^ 63"
      by (simp add: d_def n)
    from TapDSConfig_Unmarshal_loop_field2 [OF this, of cs m1] show ?thesis
      by (simp add: d_def n m2_def)
  qed
  have "unknown_fields [1, 2] ((c @ n) @ u) (length (c @ n) + 0)"
    using Ld u by (intro unknown_fields_append) (simp_all add: d_def u_def)
  then have uf: "unknown_fields [1, 2] d (length (c @ n))" by (simp add: d_def)
  have le: "length (c @ n) \<le> length d" by (simp add: d_def)
  have dr: "drop (length (c @ n)) d = u" by (simp add: d_def)
  have s3: "?loop m2 d (length (c @ n))
      = Inr (m2\<lparr>TapDSConfig_XXX_unrecognized := TapDSConfig_XXX_unrecognized m2 @ u\<rparr>)"
    unfolding TapDSConfig_Unmarshal_loop_unknown [OF uf le] dr ..
  have "m2\<lparr>TapDSConfig_XXX_unrecognized := TapDSConfig_XXX_unrecognized m2 @ u\<rparr> = m"
    by (simp add: m2_def m1_def m0_def u_def CommonExtensionConfig_TapDSConfig_new_def)
  with s1 s2 s3 show ?thesis
    unfolding CommonExtensionConfig_TapDSConfig_Unmarshal_def e m0_def [symmetric]
    by simp
qed

lemma CommonExtensionConfig_Unmarshal_loop_unknown:
  "unknown_fields [1, 2, 3] d i \<Longrightarrow> i \<le> length d \<Longrightarrow>
   CommonExtensionConfig_Unmarshal_loop tc cs m d i
     = Inr (m\<lparr>XXX_unrecognized := XXX_unrecognized m @ drop i d\<rparr>)"
proof (induction "[1::int, 2, 3]" d i arbitrary: m rule: unknown_fields.induct)
  case (1 d i)
  show ?case
  proof (cases "i < length d")
    case False
    with "1.prems" show ?thesis by (subst CommonExtensionConfig_Unmarshal_loop.simps) simp
  next
    case True
    from unknown_fields_step [OF "1.prems"(1) True] obtain wire i' k where
      dv: "decode_varint d i 0 0 = Inr (wire, i')" and
      w: "wireType_of wire \<noteq> 4" "0 < fieldNum_of wire" "fieldNum_of wire \<notin> set [1, 2, 3]" and
      sk: "skip_unknown d i = Inr k" and rest: "unknown_fields [1, 2, 3] d (i + k)"
      by blast
    from w have w': "\<not> (wireType_of wire = 4 \<or> fieldNum_of wire \<le> 0 \<or> fieldNum_of wire \<in> set [1, 2, 3])"
      by simp
    from sk have b: "i + k \<le> length d" by (auto dest: skip_unknown_bounds)
    have ih: "CommonExtensionConfig_Unmarshal_loop tc cs
        (m\<lparr>XXX_unrecognized := XXX_unrecognized m @ slice d i (i + k)\<rparr>) d (i + k)
      = Inr (m\<lparr>XXX_unrecognized := (XXX_unrecognized m @ slice d i (i + k)) @ drop (i + k) d\<rparr>)"
      using "1.hyps" [OF True dv refl w' sk rest b] by simp
    from True w show ?thesis
      by (subst CommonExtensionConfig_Unmarshal_loop.simps)
        (simp add: dv sk ih slice_append_drop)
  qed
qed

lemma CommonExtensionConfig_Unmarshal_loop_field1:
  assumes "length (pre @ field_bytes 0xa payload @ post) < 2 ^ 63"
    and "AdminConfig_Unmarshal AdminConfig_new payload = Inr v"
  shows "CommonExtensionConfig_Unmarshal_loop tc cs m (pre @ field_bytes 0xa payload @ post) (length pre)
     = CommonExtensionConfig_Unmarshal_loop tc cs
         (m\<lparr>ConfigType := Some (CommonExtensionConfig_AdminConfig (Some v))\<rparr>)
         (pre @ field_bytes 0xa payload @ post) (length pre + length (field_bytes 0xa payload))"
proof -
  have t: "(0xa :: byte) < 0x80" by simp
  note h = field_header [OF t assms(1)]
  have lt: "length pre < length (pre @ field_bytes 0xa payload @ post)"
    by (simp add: field_bytes_def)
  show ?thesis
    by (subst CommonExtensionConfig_Unmarshal_loop.simps)
      (simp add: h tag_numbers lt assms(2) del: append_assoc length_append)
qed

lemma CommonExtensionConfig_Unmarshal_loop_field2:
  assumes "length (pre @ field_bytes 0x12 payload @ post) < 2 ^ 63"
    and "ext_Unmarshal tc (ext_new tc) payload = Inr v"
  shows "CommonExtensionConfig_Unmarshal_loop tc cs m (pre @ field_bytes 0x12 payload @ post) (length pre)
     = CommonExtensionConfig_Unmarshal_loop tc cs
         (m\<lparr>ConfigType := Some (CommonExtensionConfig_StaticConfig (Some v))\<rparr>)
         (pre @ field_bytes 0x12 payload @ post) (length pre + length (field_bytes 0x12 payload))"
proof -
  have t: "(0x12 :: byte) < 0x80" by simp
  note h = field_header [OF t assms(1)]
  have lt: "length pre < length (pre @ field_bytes 0x12 payload @ post)"
    by (simp add: field_bytes_def)
  show ?thesis
    by (subst CommonExtensionConfig_Unmarshal_loop.simps)
      (simp add: h tag_numbers lt assms(2) del: append_assoc length_append)
qed

lemma CommonExtensionConfig_Unmarshal_loop_field3:
  assumes "length (pre @ field_bytes 0x1a payload @ post) < 2 ^ 63"
    and "CommonExtensionConfig_TapDSConfig_Unmarshal cs CommonExtensionConfig_TapDSConfig_new payload = Inr v"
  shows "CommonExtensionConfig_Unmarshal_loop tc cs m (pre @ field_bytes 0x1a payload @ post) (length pre)
     = CommonExtensionConfig_Unmarshal_loop tc cs
         (m\<lparr>ConfigType := Some (CommonExtensionConfig_TapdsConfig (Some v))\<rparr>)
         (pre @ field_bytes 0x1a payload @ post) (length pre + length (field_bytes 0x1a payload))"
proof -
  have t: "(0x1a :: byte) < 0x80" by simp
  note h = field_header [OF t assms(1)]
  have lt: "length pre < length (pre @ field_bytes 0x1a payload @ post)"
    by (simp add: field_bytes_def)
  show ?thesis
    by (subst CommonExtensionConfig_Unmarshal_loop.simps)
      (simp add: h tag_numbers lt assms(2) del: append_assoc length_append)
qed

lemma length_field_bytes_gt: "length payload < length (field_bytes t payload)"
  by (simp add: length_field_bytes)

lemma CommonExtensionConfig_round_trip:
  fixes m :: "('tc, 'cs) CommonExtensionConfig"
  assumes wf: "CommonExtensionConfig_well_formed tc cs m"
    and L: "length (CommonExtensionConfig_encoding tc cs m) < 2 ^ 63"
  shows "CommonExtensionConfig_Unmarshal tc cs CommonExtensionConfig_new
           (CommonExtensionConfig_encoding tc cs m) = Inr m"
proof -
  define u where "u = XXX_unrecognized m"
  define c where "c = (case ConfigType m of
      Some v \<Rightarrow> isCommonExtensionConfig_ConfigType_encoding tc cs v | None \<Rightarrow> [])"
  define d where "d = c @ u"
  define m0 :: "('tc, 'cs) CommonExtensionConfig" where "m0 = CommonExtensionConfig_new"
  define m1 where "m1 = m0\<lparr>ConfigType := ConfigType m\<rparr>"
  let ?loop = "CommonExtensionConfig_Unmarshal_loop tc cs"
  have e: "CommonExtensionConfig_encoding tc cs m = d"
    by (simp add: CommonExtensionConfig_encoding_def d_def c_def u_def)
  from L have Ld: "length d < 2 ^ 63" by (simp only: e)
  from wf have uu: "unknown_fields [1, 2, 3] u 0"
    by (simp add: CommonExtensionConfig_well_formed_def u_def)
  have s1: "?loop m0 d 0 = ?loop m1 d (length c)"
  proof (cases "ConfigType m")
    case None
    then have "c = []" "m1 = m0"
      by (simp_all add: c_def m1_def m0_def CommonExtensionConfig_new_def)
    then show ?thesis by simp
  next
    case (Some v)
    with wf have wfv: "ConfigType_well_formed tc cs v"
      by (simp add: CommonExtensionConfig_well_formed_def)
    show ?thesis
    proof (cases v)
      case (CommonExtensionConfig_AdminConfig x)
      with wfv obtain a where x: "x = Some a" and wa: "AdminConfig_well_formed a"
        by (auto simp: ConfigType_well_formed_def split: option.splits)
      have c: "c = field_bytes 0xa (AdminConfig_encoding a)"
        by (simp add: c_def Some CommonExtensionConfig_AdminConfig x
            isCommonExtensionConfig_ConfigType_encoding_def)
      from Ld have Lf: "length ([] @ field_bytes 0xa (AdminConfig_encoding a) @ u) < 2 ^ 63"
        by (simp add: d_def c)
      then have "length (AdminConfig_encoding a) < 2 ^ 63"
        using length_field_bytes_gt [of "AdminConfig_encoding a" "0xa"] by simp
      with wa have r: "AdminConfig_Unmarshal AdminConfig_new (AdminConfig_encoding a) = Inr a"
        by (simp add: AdminConfig_round_trip AdminConfig_well_formed_def)
      from CommonExtensionConfig_Unmarshal_loop_field1 [OF Lf r, of tc cs m0] show ?thesis
        by (simp add: d_def c m1_def Some CommonExtensionConfig_AdminConfig x)
    next
      case (CommonExtensionConfig_StaticConfig x)
      with wfv obtain s where x: "x = Some s" and ws: "ext_round_trip tc s"
        by (auto simp: ConfigType_well_formed_def split: option.splits)
      have c: "c = field_bytes 0x12 (ext_bytes tc s)"
        by (simp add: c_def Some CommonExtensionConfig_StaticConfig x
            isCommonExtensionConfig_ConfigType_encoding_def)
      from Ld have Lf: "length ([] @ field_bytes 0x12 (ext_bytes tc s) @ u) < 2 ^ 63"
        by (simp add: d_def c)
      from ws have r: "ext_Unmarshal tc (ext_new tc) (ext_bytes tc s) = Inr s"
        by (simp add: ext_round_trip_def)
      from CommonExtensionConfig_Unmarshal_loop_field2 [OF Lf r, of cs m0] show ?thesis
        by (simp add: d_def c m1_def Some CommonExtensionConfig_StaticConfig x)
    next
      case (CommonExtensionConfig_TapdsConfig x)
      with wfv obtain t where x: "x = Some t" and wt: "TapDSConfig_well_formed cs t"
        by (auto simp: ConfigType_well_formed_def split: option.splits)
      have c: "c = field_bytes 0x1a (CommonExtensionConfig_TapDSConfig_encoding cs t)"
        by (simp add: c_def Some CommonExtensionConfig_TapdsConfig x
            isCommonExtensionConfig_ConfigType_encoding_def)
      from Ld have Lf: "length ([] @ field_bytes 0x1a (CommonExtensionConfig_TapDSConfig_encoding cs t) @ u)
          < 2 ^ 63"
        by (simp add: d_def c)
      then have "length (CommonExtensionConfig_TapDSConfig_encoding cs t) < 2 ^ 63"
        using length_field_bytes_gt [of "CommonExtensionConfig_TapDSConfig_encoding cs t" "0x1a"] by simp
      with wt have r: "CommonExtensionConfig_TapDSConfig_Unmarshal cs CommonExtensionConfig_TapDSConfig_new
          (CommonExtensionConfig_TapDSConfig_encoding cs t) = Inr t"
        by (simp add: TapDSConfig_round_trip TapDSConfig_well_formed_def)
      from CommonExtensionConfig_Unmarshal_loop_field3 [OF Lf r, of tc m0] show ?thesis
        by (simp add: d_def c m1_def Some CommonExtensionConfig_TapdsConfig x)
    qed (use wfv in \<open>simp_all add: ConfigType_well_formed_def\<close>)
  qed
  have "unknown_fields [1, 2, 3] (c @ u) (length c + 0)"
    using Ld uu by (intro unknown_fields_append) (simp_all add: d_def)
  then have uf: "unknown_fields [1, 2, 3] d (length c)" by (simp add: d_def)
  have le: "length c \<le> length d" by (simp add: d_def)
  have dr: "drop (length c) d = u" by (simp add: d_def)
  have s2: "?loop m1 d (length c) = Inr (m1\<lparr>XXX_unrecognized := XXX_unrecognized m1 @ u\<rparr>)"
    unfolding CommonExtensionConfig_Unmarshal_loop_unknown [OF uf le] dr ..
  have "m1\<lparr>XXX_unrecognized := XXX_unrecognized m1 @ u\<rparr> = m"
    by (simp add: m1_def m0_def u_def CommonExtensionConfig_new_def)
  with s1 s2 show ?thesis
    unfolding CommonExtensionConfig_Unmarshal_def e m0_def [symmetric]
    by simp
qed

lemma well_formed_not_nil_wrapper:
  "CommonExtensionConfig_well_formed tc cs m \<Longrightarrow> \<not> CommonExtensionConfig_nil_wrapper m"
  by (auto simp: CommonExtensionConfig_well_formed_def CommonExtensionConfig_nil_wrapper_def
      ConfigType_well_formed_def ConfigType_nil_wrapper_def
      split: option.splits isCommonExtensionConfig_ConfigType.splits)

lemma example_facts:
  "AdminConfig_well_formed example_AdminConfig"
  "AdminConfig_Size (Some example_AdminConfig) = 13"
  "TapDSConfig_well_formed opaque_codec example_TapDSConfig"
  "TapDSConfig_ext_ok opaque_codec example_TapDSConfig"
  "CommonExtensionConfig_TapDSConfig_Size opaque_codec (Some example_TapDSConfig) = 19"
  "CommonExtensionConfig_well_formed opaque_codec opaque_codec example_CommonExtensionConfig"
  "CommonExtensionConfig_ext_ok opaque_codec opaque_codec example_CommonExtensionConfig"
  "CommonExtensionConfig_Size opaque_codec opaque_codec (Some example_CommonExtensionConfig) = 25"
  by code_simp+

section \<open>One iteration of the decoding loops\<close>

text \<open>
  The body of each loop once the tag is read, and the varint reader on ten continuation
  bytes.
\<close>

lemma AdminConfig_Unmarshal_loop_tag:
  assumes "iNdEx < length dAtA" "decode_varint dAtA iNdEx 0 0 = Inr (wire, iNdEx')"
  shows "AdminConfig_Unmarshal_loop m dAtA iNdEx =
     (if wireType_of wire = 4 then Inl (ErrEndGroupForNonGroup ''AdminConfig'')
      else if fieldNum_of wire \<le> 0 then Inl (ErrIllegalTag ''AdminConfig'' (fieldNum_of wire))
      else if fieldNum_of wire = 1 then
        (if wireType_of wire \<noteq> 2 then Inl (ErrWrongWireType (wireType_of wire) ''ConfigId'')
         else
           (case read_length dAtA iNdEx' of
              Inl e \<Rightarrow> Inl e
            | Inr (iNdEx'', postIndex) \<Rightarrow>
                AdminConfig_Unmarshal_loop
                  (m\<lparr>ConfigId := slice dAtA iNdEx'' postIndex\<rparr>) dAtA postIndex))
      else
        (case skip_unknown dAtA iNdEx of
           Inl e \<Rightarrow> Inl e
         | Inr skippy \<Rightarrow>
             AdminConfig_Unmarshal_loop
               (m\<lparr>AdminConfig_XXX_unrecognized :=
                    AdminConfig_XXX_unrecognized m @ slice dAtA iNdEx (iNdEx + skippy)\<rparr>)
               dAtA (iNdEx + skippy)))"
  using assms by (subst AdminConfig_Unmarshal_loop.simps) simp

lemma TapDSConfig_Unmarshal_loop_tag:
  assumes "iNdEx < length dAtA" "decode_varint dAtA iNdEx 0 0 = Inr (wire, iNdEx')"
  shows "CommonExtensionConfig_TapDSConfig_Unmarshal_loop cs m dAtA iNdEx =
     (if wireType_of wire = 4 then Inl (ErrEndGroupForNonGroup ''TapDSConfig'')
      else if fieldNum_of wire \<le> 0 then Inl (ErrIllegalTag ''TapDSConfig'' (fieldNum_of wire))
      else if fieldNum_of wire = 1 then
        (if wireType_of wire \<noteq> 2 then Inl (ErrWrongWireType (wireType_of wire) ''ConfigSource'')
         else
           (case read_length dAtA iNdEx' of
              Inl e \<Rightarrow> Inl e
            | Inr (iNdEx'', postIndex) \<Rightarrow>
                (case ext_Unmarshal cs
                        (case ConfigSource m of None \<Rightarrow> ext_new cs | Some x \<Rightarrow> x)
                        (slice dAtA iNdEx'' postIndex) of
                   Inl e \<Rightarrow> Inl e
                 | Inr x \<Rightarrow>
                     CommonExtensionConfig_TapDSConfig_Unmarshal_loop cs
                       (m\<lparr>ConfigSource := Some x\<rparr>) dAtA postIndex)))
      else if fieldNum_of wire = 2 then
        (if wireType_of wire \<noteq> 2 then Inl (ErrWrongWireType (wireType_of wire) ''Name'')
         else
           (case read_length dAtA iNdEx' of
              Inl e \<Rightarrow> Inl e
            | Inr (iNdEx'', postIndex) \<Rightarrow>
                CommonExtensionConfig_TapDSConfig_Unmarshal_loop cs
                  (m\<lparr>Name := slice dAtA iNdEx'' postIndex\<rparr>) dAtA postIndex))
      else
        (case skip_unknown dAtA iNdEx of
           Inl e \<Rightarrow> Inl e
         | Inr skippy \<Rightarrow>
             CommonExtensionConfig_TapDSConfig_Unmarshal_loop cs
               (m\<lparr>TapDSConfig_XXX_unrecognized :=
                    TapDSConfig_XXX_unrecognized m @ slice dAtA iNdEx (iNdEx + skippy)\<rparr>)
               dAtA (iNdEx + skippy)))"
  using assms by (subst CommonExtensionConfig_TapDSConfig_Unmarshal_loop.simps) simp

lemma CommonExtensionConfig_Unmarshal_loop_tag:
  assumes "iNdEx < length dAtA" "decode_varint dAtA iNdEx 0 0 = Inr (wire, iNdEx')"
  shows "CommonExtensionConfig_Unmarshal_loop tc cs m dAtA iNdEx =
     (if wireType_of wire = 4 then Inl (ErrEndGroupForNonGroup ''CommonExtensionConfig'')
      else if fieldNum_of wire \<le> 0
        then Inl (ErrIllegalTag ''CommonExtensionConfig'' (fieldNum_of wire))
      else if fieldNum_of wire = 1 then
        (if wireType_of wire \<noteq> 2 then Inl (ErrWrongWireType (wireType_of wire) ''AdminConfig'')
         else
           (case read_length dAtA iNdEx' of
              Inl e \<Rightarrow> Inl e
            | Inr (iNdEx'', postIndex) \<Rightarrow>
                (case AdminConfig_Unmarshal AdminConfig_new (slice dAtA iNdEx'' postIndex) of
                   Inl e \<Rightarrow> Inl e
                 | Inr v \<Rightarrow>
                     CommonExtensionConfig_Unmarshal_loop tc cs
                       (m\<lparr>ConfigType := Some (CommonExtensionConfig_AdminConfig (Some v))\<rparr>)
                       dAtA postIndex)))
      else if fieldNum_of wire = 2 then
        (if wireType_of wire \<noteq> 2 then Inl (ErrWrongWireType (wireType_of wire) ''StaticConfig'')
         else
           (case read_length dAtA iNdEx' of
              Inl e \<Rightarrow> Inl e
            | Inr (iNdEx'', postIndex) \<Rightarrow>
                (case ext_Unmarshal tc (ext_new tc) (slice dAtA iNdEx'' postIndex) of
                   Inl e \<Rightarrow> Inl e
                 | Inr v \<Rightarrow>
                     CommonExtensionConfig_Unmarshal_loop tc cs
                       (m\<lparr>ConfigType := Some (CommonExtensionConfig_StaticConfig (Some v))\<rparr>)
                       dAtA postIndex)))
      else if fieldNum_of wire = 3 then
        (if wireType_of wire \<noteq> 2 then Inl (ErrWrongWireType (wireType_of wire) ''TapdsConfig'')
         else
           (case read_length dAtA iNdEx' of
              Inl e \<Rightarrow> Inl e
            | Inr (iNdEx'', postIndex) \<Rightarrow>
                (case CommonExtensionConfig_TapDSConfig_Unmarshal cs
                        CommonExtensionConfig_TapDSConfig_new (slice dAtA iNdEx'' postIndex) of
                   Inl e \<Rightarrow> Inl e
                 | Inr v \<Rightarrow>
                     CommonExtensionConfig_Unmarshal_loop tc cs
                       (m\<lparr>ConfigType := Some (CommonExtensionConfig_TapdsConfig (Some v))\<rparr>)
                       dAtA postIndex)))
      else
        (case skip_unknown dAtA iNdEx of
           Inl e \<Rightarrow> Inl e
         | Inr skippy \<Rightarrow>
             CommonExtensionConfig_Unmarshal_loop tc cs
               (m\<lparr>XXX_unrecognized := XXX_unrecognized m @ slice dAtA iNdEx (iNdEx + skippy)\<rparr>)
               dAtA (iNdEx + skippy)))"
  using assms by (subst CommonExtensionConfig_Unmarshal_loop.simps) simp

lemma continuation_bytes_Suc:
  assumes "continuation_bytes d i (Suc n)"
  shows "i < length d" "0x80 \<le> d ! i" "continuation_bytes d (Suc i) n"
proof -
  from assms show lt: "i < length d" by (simp add: continuation_bytes_def)
  then have "drop i d = d ! i # drop (Suc i) d" by (simp add: Cons_nth_drop_Suc)
  then have "take (Suc n) (drop i d) = d ! i # take n (drop (Suc i) d)" by simp
  with assms show "0x80 \<le> d ! i" "continuation_bytes d (Suc i) n"
    by (simp_all add: continuation_bytes_def)
qed

lemma decode_varint_overflow_gen:
  "n \<le> 10 \<Longrightarrow> continuation_bytes d i n \<Longrightarrow>
   decode_varint d i (7 * (10 - n)) w = Inl ErrIntOverflowCommon"
proof (induction n arbitrary: i w)
  case 0
  then show ?case by (simp add: decode_varint_overflow)
next
  case (Suc n)
  note c = continuation_bytes_Suc [OF Suc.prems(2)]
  from Suc.prems(1) have s: "7 * (10 - Suc n) < 64" "7 * (10 - Suc n) + 7 = 7 * (10 - n)"
    by simp_all
  from Suc.prems(1) have "n \<le> 10" by simp
  from Suc.IH [OF this c(3)] c(1,2) s show ?case
    by (simp add: decode_varint_step not_less)
qed

lemma decode_varint_ten_continuation_bytes:
  "continuation_bytes d i 10 \<Longrightarrow> decode_varint d i 0 0 = Inl ErrIntOverflowCommon"
  using decode_varint_overflow_gen [of 10 d i 0] by simp

lemma skipCommon_loop_tag:
  assumes "iNdEx < length dAtA" "decode_varint dAtA iNdEx 0 0 = Inr (wire, iNdEx')"
  shows "skipCommon_loop dAtA iNdEx depth =
     (case skip_step dAtA iNdEx' depth (wireType_of wire) of
        Inl e \<Rightarrow> Inl e
      | Inr (iNdEx'', depth') \<Rightarrow>
          if depth' = 0 then Inr iNdEx'' else skipCommon_loop dAtA iNdEx'' depth')"
  using assms by (subst skipCommon_loop.simps) (simp add: wireType_of_def)

lemma skipCommon_loop_end: "length dAtA \<le> iNdEx \<Longrightarrow> skipCommon_loop dAtA iNdEx depth = Inl ErrUnexpectedEOF"
  by (subst skipCommon_loop.simps) simp

section \<open>Errors of length prefixes\<close>

text \<open>
  The four ways in which a length prefix is refused, and that a known field with wire type
  2 passes the error on.
\<close>

lemma read_length_overflow:
  "continuation_bytes d i 10 \<Longrightarrow> read_length d i = Inl ErrIntOverflowCommon"
  by (simp add: read_length_def decode_varint_ten_continuation_bytes)

lemma read_length_negative:
  "decode_varint d i 0 0 = Inr (len, i') \<Longrightarrow> sint len < 0 \<Longrightarrow>
   read_length d i = Inl ErrInvalidLengthCommon"
  by (simp add: read_length_def add_length_def)

lemma read_length_wraps:
  "decode_varint d i 0 0 = Inr (len, i') \<Longrightarrow> 0 \<le> sint len \<Longrightarrow> 2 ^ 63 \<le> int i' + sint len \<Longrightarrow>
   read_length d i = Inl ErrInvalidLengthCommon"
  by (simp add: read_length_def add_length_def)

lemma read_length_past_end:
  "decode_varint d i 0 0 = Inr (len, i') \<Longrightarrow> 0 \<le> sint len \<Longrightarrow> int i' + sint len < 2 ^ 63 \<Longrightarrow>
   length d < i' + nat (sint len) \<Longrightarrow> read_length d i = Inl ErrUnexpectedEOF"
  by (simp add: read_length_def add_length_def)

lemma skip_step_2:
  "skip_step d i depth 2 =
     (case decode_varint d i 0 0 of
        Inl e \<Rightarrow> Inl e
      | Inr (len, i') \<Rightarrow>
          (case add_length i' len of
             Inl e \<Rightarrow> Inl e
           | Inr i'' \<Rightarrow> Inr (i'', depth)))"
  by (simp add: skip_step_def)

text \<open>
  The length prefix of a field that the schema does not know is read by \<^verbatim>\<open>skipCommon\<close>
  on the rest of the buffer; the default branch passes its errors on and adds the two
  checks of \<^verbatim>\<open>iNdEx + skippy\<close>.
\<close>

lemma continuation_bytes_drop:
  "continuation_bytes d i' n \<Longrightarrow> i \<le> i' \<Longrightarrow> continuation_bytes (drop i d) (i' - i) n"
  by (auto simp: continuation_bytes_def)

lemma skip_unknown_length_prefix:
  assumes lt: "i < length d" and tag: "decode_varint d i 0 0 = Inr (wire, i')" and wt: "wireType_of wire = 2"
  shows "continuation_bytes d i' 10 \<Longrightarrow> skip_unknown d i = Inl ErrIntOverflowCommon"
    and "decode_varint d i' 0 0 = Inr (len, i'') \<Longrightarrow> sint len < 0 \<or> 2 ^ 63 \<le> int i'' + sint len \<Longrightarrow>
         skip_unknown d i = Inl ErrInvalidLengthCommon"
    and "decode_varint d i' 0 0 = Inr (len, i'') \<Longrightarrow> 0 \<le> sint len \<Longrightarrow> int i'' + sint len < 2 ^ 63 \<Longrightarrow>
         length d < i'' + nat (sint len) \<Longrightarrow> skip_unknown d i = Inl ErrUnexpectedEOF"
proof -
  from tag have ii: "i < i'" by (auto dest: decode_varint_bounds)
  from lt have lt': "0 < length (drop i d)" by simp
  from tag have tag': "decode_varint (drop i d) 0 0 0 = Inr (wire, i' - i)"
    using decode_varint_drop [of d i 0 0 0 wire i'] by simp
  note st = skipCommon_loop_tag [OF lt' tag', of 0, unfolded wt skip_step_2]
  { assume c: "continuation_bytes d i' 10"
    from continuation_bytes_drop [OF c] ii
    have "decode_varint (drop i d) (i' - i) 0 0 = Inl ErrIntOverflowCommon"
      by (intro decode_varint_ten_continuation_bytes) simp
    then show "skip_unknown d i = Inl ErrIntOverflowCommon"
      by (simp add: skip_unknown_def skipCommon_def st) }
  { assume dv: "decode_varint d i' 0 0 = Inr (len, i'')"
    from dv have i2: "i' < i''" by (auto dest: decode_varint_bounds)
    from dv ii have dv': "decode_varint (drop i d) (i' - i) 0 0 = Inr (len, i'' - i)"
      using decode_varint_drop [of d i "i' - i" 0 0 len i''] by simp
    from ii i2 have e: "int i + int (i'' - i) = int i''" by simp
    { assume bad: "sint len < 0 \<or> 2 ^ 63 \<le> int i'' + sint len"
      show "skip_unknown d i = Inl ErrInvalidLengthCommon"
      proof (cases "sint len < 0 \<or> 2 ^ 63 \<le> int (i'' - i) + sint len")
        case True
        then show ?thesis
          by (auto simp: skip_unknown_def skipCommon_def st dv' add_length_def)
      next
        case False
        with bad have w: "2 ^ 63 \<le> int i'' + sint len" "0 \<le> sint len" by auto
        from False have al: "add_length (i'' - i) len = Inr (i'' - i + nat (sint len))"
          by (auto simp: add_length_def)
        from w e have "2 ^ 63 \<le> int i + int (i'' - i + nat (sint len))" by simp
        then show ?thesis
          by (simp add: skip_unknown_def skipCommon_def st dv' al)
      qed }
    { assume ok: "0 \<le> sint len" "int i'' + sint len < 2 ^ 63" and past: "length d < i'' + nat (sint len)"
      from ok e have "int (i'' - i) + sint len < 2 ^ 63" by linarith
      with ok have al: "add_length (i'' - i) len = Inr (i'' - i + nat (sint len))"
        by (auto simp: add_length_def)
      from ok e have n: "\<not> 2 ^ 63 \<le> int i + int (i'' - i + nat (sint len))" by simp
      from ii i2 past have p: "length d < i + (i'' - i + nat (sint len))" by simp
      show "skip_unknown d i = Inl ErrUnexpectedEOF"
        using n p by (simp add: skip_unknown_def skipCommon_def st dv' al) } }
qed

lemma field_length_error:
  assumes "i < length d" "decode_varint d i 0 0 = Inr (wire, i')" "wireType_of wire = 2"
    and "0 < fieldNum_of wire" and "read_length d i' = Inl e" and "skip_unknown d i = Inl e"
  shows "AdminConfig_Unmarshal_loop a d i = Inl e"
    and "CommonExtensionConfig_TapDSConfig_Unmarshal_loop cs t d i = Inl e"
    and "CommonExtensionConfig_Unmarshal_loop tc cs' c d i = Inl e"
  using assms(3-)
  by (simp_all add: AdminConfig_Unmarshal_loop_tag [OF assms(1,2)]
      TapDSConfig_Unmarshal_loop_tag [OF assms(1,2)]
      CommonExtensionConfig_Unmarshal_loop_tag [OF assms(1,2)])

lemma example_C7_facts:
  "0 < length example_long_varint" "decode_varint example_long_varint 0 0 0 = Inr (0x0a, 1)"
  "continuation_bytes example_long_varint 1 10"
  "0 < length example_negative_length" "decode_varint example_negative_length 0 0 0 = Inr (0x0a, 1)"
  "decode_varint example_negative_length 1 0 0 = Inr (- 1, 11)"
  "0 < length [0x0a, 0x05 :: byte]" "decode_varint [0x0a, 0x05] 0 0 0 = Inr (0x0a, 1)"
  "decode_varint [0x0a, 0x05] 1 0 0 = Inr (5, 2)"
  "wireType_of 0x0a = 2" "fieldNum_of 0x0a = 1"
  by code_simp+

lemma example_C7_unknown_facts:
  "0 < length example_unknown_long_varint"
  "decode_varint example_unknown_long_varint 0 0 0 = Inr (0x22, 1)"
  "continuation_bytes example_unknown_long_varint 1 10"
  "0 < length example_unknown_negative_length"
  "decode_varint example_unknown_negative_length 0 0 0 = Inr (0x22, 1)"
  "decode_varint example_unknown_negative_length 1 0 0 = Inr (- 1, 11)"
  "0 < length [0x22, 0x05 :: byte]" "decode_varint [0x22, 0x05] 0 0 0 = Inr (0x22, 1)"
  "decode_varint [0x22, 0x05] 1 0 0 = Inr (5, 2)"
  "wireType_of 0x22 = 2" "fieldNum_of 0x22 = 4"
  by code_simp+

lemma example_C7_wrapping_facts:
  "3 < length example_unknown_wrapping_length"
  "decode_varint example_unknown_wrapping_length 3 0 0 = Inr (0x22, 4)"
  "decode_varint example_unknown_wrapping_length 4 0 0 = Inr (0x7FFFFFFFFFFFFFF5, 13)"
  by code_simp+

section \<open>Decoding a prefix of a buffer\<close>

text \<open>
  What the readers do on \<open>take n d\<close> when they succeed on \<open>d\<close>: they give the same
  result where the cut lies behind what they read, and the truncated-input error (or, for
  \<^verbatim>\<open>skipCommon\<close>, an offset behind the cut) elsewhere.
\<close>

lemma read_length_take:
  assumes "read_length d i = Inr (i', post)" "n \<le> length d"
  shows "read_length (take n d) i = (if post \<le> n then Inr (i', post) else Inl ErrUnexpectedEOF)"
proof -
  from assms(1) obtain len where dv: "decode_varint d i 0 0 = Inr (len, i')"
    and al: "add_length i' len = Inr post" and le: "post \<le> length d"
    by (auto simp: read_length_def split: sum.splits if_splits)
  from al have ip: "i' \<le> post" by (rule add_length_mono)
  from assms(2) have l: "length (take n d) = n" by simp
  show ?thesis
    using ip le assms(2) by (auto simp: read_length_def decode_varint_take [OF dv] al)
qed

lemma slice_take: "post \<le> n \<Longrightarrow> slice (take n d) i post = slice d i post"
  by (simp add: slice_def drop_take min_def)

lemma skip_step_take:
  assumes "skip_step d i depth wt = Inr (i'', depth')"
  shows "skip_step (take n d) i depth wt = Inr (i'', depth')
           \<or> skip_step (take n d) i depth wt = Inl ErrUnexpectedEOF"
    and "i'' \<le> n \<Longrightarrow> skip_step (take n d) i depth wt = Inr (i'', depth')"
proof -
  have "(skip_step (take n d) i depth wt = Inr (i'', depth')
           \<or> skip_step (take n d) i depth wt = Inl ErrUnexpectedEOF)
      \<and> (i'' \<le> n \<longrightarrow> skip_step (take n d) i depth wt = Inr (i'', depth'))"
  proof (cases "wt = 0 \<or> wt = 2")
    case False
    with assms show ?thesis by (auto simp: skip_step_def split: if_splits)
  next
    case True
    with assms obtain v j where dv: "decode_varint d i 0 0 = Inr (v, j)"
      by (auto simp: skip_step_def split: sum.splits if_splits)
    from True assms dv have "j \<le> i''"
      by (auto simp: skip_step_def split: sum.splits if_splits dest: add_length_mono)
    with True assms dv show ?thesis
      by (auto simp: skip_step_def decode_varint_take [OF dv] split: sum.splits if_splits)
  qed
  then show "skip_step (take n d) i depth wt = Inr (i'', depth')
           \<or> skip_step (take n d) i depth wt = Inl ErrUnexpectedEOF"
    and "i'' \<le> n \<Longrightarrow> skip_step (take n d) i depth wt = Inr (i'', depth')"
    by blast+
qed

lemma skipCommon_loop_take:
  "skipCommon_loop d j depth = Inr k \<Longrightarrow>
   (k \<le> n \<longrightarrow> skipCommon_loop (take n d) j depth = Inr k)
   \<and> (skipCommon_loop (take n d) j depth = Inr k
        \<or> skipCommon_loop (take n d) j depth = Inl ErrUnexpectedEOF)"
proof (induction d j depth rule: skipCommon_loop.induct)
  case (1 d j depth)
  from "1.prems" obtain wire i1 i2 depth' where
    lt: "j < length d" and
    dv: "decode_varint d j 0 0 = Inr (wire, i1)" and
    st: "skip_step d i1 depth (unat (wire AND 0x7)) = Inr (i2, depth')" and
    res: "(if depth' = 0 then Inr i2 else skipCommon_loop d i2 depth') = Inr k"
    by (auto simp: skipCommon_loop.simps [of d j depth] split: if_splits sum.splits)
  from dv st have le: "j < i1" "i1 \<le> i2"
    by (auto dest: decode_varint_bounds skip_step_mono)
  have i2k: "i2 \<le> k"
    using res by (auto split: if_splits dest: skipCommon_loop_bounds)
  show ?case
  proof (cases "j < length (take n d)")
    case False
    then have "length (take n d) \<le> j" by (simp only: not_less)
    then have "skipCommon_loop (take n d) j depth = Inl ErrUnexpectedEOF"
      by (rule skipCommon_loop_end)
    moreover from False lt le i2k have "\<not> k \<le> n" by simp
    ultimately show ?thesis by simp
  next
    case jn: True
    show ?thesis
    proof (cases "i1 \<le> n")
      case False
      with jn have "skipCommon_loop (take n d) j depth = Inl ErrUnexpectedEOF"
        by (subst skipCommon_loop.simps) (simp add: decode_varint_take [OF dv])
      moreover from False le i2k have "\<not> k \<le> n" by simp
      ultimately show ?thesis by simp
    next
      case True
      then have dv': "decode_varint (take n d) j 0 0 = Inr (wire, i1)"
        by (simp add: decode_varint_take [OF dv])
      note u = skipCommon_loop.simps [of "take n d" j depth]
      from skip_step_take(1) [OF st, of n] show ?thesis
      proof
        assume e: "skip_step (take n d) i1 depth (unat (wire AND 0x7)) = Inl ErrUnexpectedEOF"
        with jn have "skipCommon_loop (take n d) j depth = Inl ErrUnexpectedEOF"
          by (simp add: u dv')
        moreover have "\<not> i2 \<le> n" using skip_step_take(2) [OF st, of n] e by auto
        with i2k have "\<not> k \<le> n" by simp
        ultimately show ?thesis by simp
      next
        assume s: "skip_step (take n d) i1 depth (unat (wire AND 0x7)) = Inr (i2, depth')"
        show ?thesis
        proof (cases "depth' = 0")
          case True
          with res jn s show ?thesis by (simp add: u dv')
        next
          case False
          with res have r: "skipCommon_loop d i2 depth' = Inr k" by simp
          from "1.IH" [OF lt dv refl st refl False r] jn s False show ?thesis
            by (simp add: u dv')
        qed
      qed
    qed
  qed
qed

lemma skip_unknown_take:
  assumes "skip_unknown d i = Inr k" "n \<le> length d" "i \<le> n"
  shows "skip_unknown (take n d) i = (if i + k \<le> n then Inr k else Inl ErrUnexpectedEOF)"
proof -
  from assms(1) have s: "skipCommon_loop (drop i d) 0 0 = Inr k"
    and no: "\<not> 2 ^ 63 \<le> int i + int k" and le: "i + k \<le> length d"
    by (auto simp: skip_unknown_def skipCommon_def split: sum.splits if_splits)
  have dt: "drop i (take n d) = take (n - i) (drop i d)" by (simp add: drop_take)
  from assms(2) have l: "length (take n d) = n" by simp
  note t = skipCommon_loop_take [OF s, of "n - i"]
  show ?thesis
  proof (cases "i + k \<le> n")
    case True
    with assms(3) have "k \<le> n - i" by simp
    with t have "skipCommon_loop (take (n - i) (drop i d)) 0 0 = Inr k" by blast
    with True no le assms(2) show ?thesis
      by (simp add: skip_unknown_def skipCommon_def dt)
  next
    case False
    from t have "skipCommon_loop (take (n - i) (drop i d)) 0 0 = Inr k
        \<or> skipCommon_loop (take (n - i) (drop i d)) 0 0 = Inl ErrUnexpectedEOF"
      by blast
    with False no le assms(2) show ?thesis
      by (auto simp: skip_unknown_def skipCommon_def dt)
  qed
qed

lemma AdminConfig_Unmarshal_loop_end:
  "AdminConfig_Unmarshal_loop m d (length d) = Inr m"
  by (subst AdminConfig_Unmarshal_loop.simps) simp

lemma AdminConfig_Unmarshal_loop_take:
  "AdminConfig_Unmarshal_loop m d i = Inr m' \<Longrightarrow> i \<le> n \<Longrightarrow> n \<le> length d \<Longrightarrow>
   AdminConfig_Unmarshal_loop m (take n d) i = Inl ErrUnexpectedEOF
   \<or> (\<exists>m''. AdminConfig_Unmarshal_loop m (take n d) i = Inr m''
          \<and> AdminConfig_Unmarshal_loop m'' d n = Inr m')"
proof (induction "length d - i" arbitrary: m i rule: less_induct)
  case less
  let ?t = "take n d"
  from less.prems(3) have l: "length ?t = n" by simp
  show ?case
  proof (cases "i < n")
    case False
    with less.prems(2) have "i = n" by simp
    with less.prems(1) l AdminConfig_Unmarshal_loop_end [of m ?t] show ?thesis by auto
  next
    case True
    with less.prems(3) have lt: "i < length d" and lt': "i < length ?t" by simp_all
    from less.prems(1) lt obtain wire i' where dv: "decode_varint d i 0 0 = Inr (wire, i')"
      by (subst (asm) AdminConfig_Unmarshal_loop.simps) (auto split: sum.splits)
    note full = less.prems(1) [unfolded AdminConfig_Unmarshal_loop_tag [OF lt dv]]
    show ?thesis
    proof (cases "i' \<le> n")
      case False
      then have "decode_varint ?t i 0 0 = Inl ErrUnexpectedEOF"
        by (simp add: decode_varint_take [OF dv])
      with lt' have "AdminConfig_Unmarshal_loop m ?t i = Inl ErrUnexpectedEOF"
        by (subst AdminConfig_Unmarshal_loop.simps) simp
      then show ?thesis ..
    next
      case True
      then have dv': "decode_varint ?t i 0 0 = Inr (wire, i')"
        by (simp add: decode_varint_take [OF dv])
      note cut = AdminConfig_Unmarshal_loop_tag [OF lt' dv']
      from full have w: "wireType_of wire \<noteq> 4" "\<not> fieldNum_of wire \<le> 0"
        by (auto split: if_splits)
      show ?thesis
      proof (cases "fieldNum_of wire = 1")
        case f: True
        with full w obtain i'' post where w2: "wireType_of wire = 2"
          and rl: "read_length d i' = Inr (i'', post)"
          and rest: "AdminConfig_Unmarshal_loop (m\<lparr>ConfigId := slice d i'' post\<rparr>) d post = Inr m'"
          by (auto split: if_splits sum.splits)
        from rl dv have b: "i < post" "post \<le> length d"
          by (auto dest!: read_length_bounds decode_varint_bounds)
        show ?thesis
        proof (cases "post \<le> n")
          case False
          with w f w2 show ?thesis
            by (simp add: cut read_length_take [OF rl less.prems(3)])
        next
          case True
          from b lt have "length d - post < length d - i" by simp
          from less.hyps [OF this rest True less.prems(3)] w f w2 True show ?thesis
            by (simp add: cut read_length_take [OF rl less.prems(3)] slice_take)
        qed
      next
        case f: False
        with full w obtain k where sk: "skip_unknown d i = Inr k"
          and rest: "AdminConfig_Unmarshal_loop
              (m\<lparr>AdminConfig_XXX_unrecognized := AdminConfig_XXX_unrecognized m @ slice d i (i + k)\<rparr>)
              d (i + k) = Inr m'"
          by (auto split: if_splits sum.splits)
        from sk have b: "0 < k" "i + k \<le> length d" by (auto dest: skip_unknown_bounds)
        note st = skip_unknown_take [OF sk less.prems(3,2)]
        show ?thesis
        proof (cases "i + k \<le> n")
          case False
          with w f show ?thesis by (simp add: cut st)
        next
          case True
          from b lt have "length d - (i + k) < length d - i" by simp
          from less.hyps [OF this rest True less.prems(3)] w f True show ?thesis
            by (simp add: cut st slice_take)
        qed
      qed
    qed
  qed
qed

lemma TapDSConfig_Unmarshal_loop_end:
  "CommonExtensionConfig_TapDSConfig_Unmarshal_loop cs m d (length d) = Inr m"
  by (subst CommonExtensionConfig_TapDSConfig_Unmarshal_loop.simps) simp

lemma TapDSConfig_Unmarshal_loop_take:
  "CommonExtensionConfig_TapDSConfig_Unmarshal_loop cs m d i = Inr m' \<Longrightarrow> i \<le> n \<Longrightarrow> n \<le> length d \<Longrightarrow>
   CommonExtensionConfig_TapDSConfig_Unmarshal_loop cs m (take n d) i = Inl ErrUnexpectedEOF
   \<or> (\<exists>m''. CommonExtensionConfig_TapDSConfig_Unmarshal_loop cs m (take n d) i = Inr m''
          \<and> CommonExtensionConfig_TapDSConfig_Unmarshal_loop cs m'' d n = Inr m')"
proof (induction "length d - i" arbitrary: m i rule: less_induct)
  case less
  let ?t = "take n d"
  let ?loop = "CommonExtensionConfig_TapDSConfig_Unmarshal_loop cs"
  from less.prems(3) have l: "length ?t = n" by simp
  show ?case
  proof (cases "i < n")
    case False
    with less.prems(2) have "i = n" by simp
    with less.prems(1) l TapDSConfig_Unmarshal_loop_end [of cs m ?t] show ?thesis by auto
  next
    case True
    with less.prems(3) have lt: "i < length d" and lt': "i < length ?t" by simp_all
    from less.prems(1) lt obtain wire i' where dv: "decode_varint d i 0 0 = Inr (wire, i')"
      by (subst (asm) CommonExtensionConfig_TapDSConfig_Unmarshal_loop.simps) (auto split: sum.splits)
    note full = less.prems(1) [unfolded TapDSConfig_Unmarshal_loop_tag [OF lt dv]]
    show ?thesis
    proof (cases "i' \<le> n")
      case False
      then have "decode_varint ?t i 0 0 = Inl ErrUnexpectedEOF"
        by (simp add: decode_varint_take [OF dv])
      with lt' have "?loop m ?t i = Inl ErrUnexpectedEOF"
        by (subst CommonExtensionConfig_TapDSConfig_Unmarshal_loop.simps) simp
      then show ?thesis ..
    next
      case True
      then have dv': "decode_varint ?t i 0 0 = Inr (wire, i')"
        by (simp add: decode_varint_take [OF dv])
      note cut = TapDSConfig_Unmarshal_loop_tag [OF lt' dv']
      from full have w: "wireType_of wire \<noteq> 4" "\<not> fieldNum_of wire \<le> 0"
        by (auto split: if_splits)
      consider (f1) "fieldNum_of wire = 1" | (f2) "fieldNum_of wire = 2"
        | (other) "fieldNum_of wire \<noteq> 1" "fieldNum_of wire \<noteq> 2"
        by blast
      then show ?thesis
      proof cases
        case f1
        with full w obtain i'' post x where w2: "wireType_of wire = 2"
          and rl: "read_length d i' = Inr (i'', post)"
          and ex: "ext_Unmarshal cs (case ConfigSource m of None \<Rightarrow> ext_new cs | Some x \<Rightarrow> x)
                     (slice d i'' post) = Inr x"
          and rest: "?loop (m\<lparr>ConfigSource := Some x\<rparr>) d post = Inr m'"
          by (auto split: if_splits sum.splits)
        from rl dv have b: "i < post" "post \<le> length d"
          by (auto dest!: read_length_bounds decode_varint_bounds)
        show ?thesis
        proof (cases "post \<le> n")
          case False
          with w f1 w2 show ?thesis
            by (simp add: cut read_length_take [OF rl less.prems(3)])
        next
          case True
          from b lt have "length d - post < length d - i" by simp
          from less.hyps [OF this rest True less.prems(3)] w f1 w2 True ex show ?thesis
            by (simp add: cut read_length_take [OF rl less.prems(3)] slice_take)
        qed
      next
        case f2
        with full w obtain i'' post where w2: "wireType_of wire = 2"
          and rl: "read_length d i' = Inr (i'', post)"
          and rest: "?loop (m\<lparr>Name := slice d i'' post\<rparr>) d post = Inr m'"
          by (auto split: if_splits sum.splits)
        from rl dv have b: "i < post" "post \<le> length d"
          by (auto dest!: read_length_bounds decode_varint_bounds)
        show ?thesis
        proof (cases "post \<le> n")
          case False
          with w f2 w2 show ?thesis
            by (simp add: cut read_length_take [OF rl less.prems(3)])
        next
          case True
          from b lt have "length d - post < length d - i" by simp
          from less.hyps [OF this rest True less.prems(3)] w f2 w2 True show ?thesis
            by (simp add: cut read_length_take [OF rl less.prems(3)] slice_take)
        qed
      next
        case other
        with full w obtain k where sk: "skip_unknown d i = Inr k"
          and rest: "?loop
              (m\<lparr>TapDSConfig_XXX_unrecognized := TapDSConfig_XXX_unrecognized m @ slice d i (i + k)\<rparr>)
              d (i + k) = Inr m'"
          by (auto split: if_splits sum.splits)
        from sk have b: "0 < k" "i + k \<le> length d" by (auto dest: skip_unknown_bounds)
        note st = skip_unknown_take [OF sk less.prems(3,2)]
        show ?thesis
        proof (cases "i + k \<le> n")
          case False
          with w other show ?thesis by (simp add: cut st)
        next
          case True
          from b lt have "length d - (i + k) < length d - i" by simp
          from less.hyps [OF this rest True less.prems(3)] w other True show ?thesis
            by (simp add: cut st slice_take)
        qed
      qed
    qed
  qed
qed

lemma CommonExtensionConfig_Unmarshal_loop_end:
  "CommonExtensionConfig_Unmarshal_loop tc cs m d (length d) = Inr m"
  by (subst CommonExtensionConfig_Unmarshal_loop.simps) simp

lemma CommonExtensionConfig_Unmarshal_loop_take:
  "CommonExtensionConfig_Unmarshal_loop tc cs m d i = Inr m' \<Longrightarrow> i \<le> n \<Longrightarrow> n \<le> length d \<Longrightarrow>
   CommonExtensionConfig_Unmarshal_loop tc cs m (take n d) i = Inl ErrUnexpectedEOF
   \<or> (\<exists>m''. CommonExtensionConfig_Unmarshal_loop tc cs m (take n d) i = Inr m''
          \<and> CommonExtensionConfig_Unmarshal_loop tc cs m'' d n = Inr m')"
proof (induction "length d - i" arbitrary: m i rule: less_induct)
  case less
  let ?t = "take n d"
  let ?loop = "CommonExtensionConfig_Unmarshal_loop tc cs"
  from less.prems(3) have l: "length ?t = n" by simp
  show ?case
  proof (cases "i < n")
    case False
    with less.prems(2) have "i = n" by simp
    with less.prems(1) l CommonExtensionConfig_Unmarshal_loop_end [of tc cs m ?t] show ?thesis by auto
  next
    case True
    with less.prems(3) have lt: "i < length d" and lt': "i < length ?t" by simp_all
    from less.prems(1) lt obtain wire i' where dv: "decode_varint d i 0 0 = Inr (wire, i')"
      by (subst (asm) CommonExtensionConfig_Unmarshal_loop.simps) (auto split: sum.splits)
    note full = less.prems(1) [unfolded CommonExtensionConfig_Unmarshal_loop_tag [OF lt dv]]
    show ?thesis
    proof (cases "i' \<le> n")
      case False
      then have "decode_varint ?t i 0 0 = Inl ErrUnexpectedEOF"
        by (simp add: decode_varint_take [OF dv])
      with lt' have "?loop m ?t i = Inl ErrUnexpectedEOF"
        by (subst CommonExtensionConfig_Unmarshal_loop.simps) simp
      then show ?thesis ..
    next
      case True
      then have dv': "decode_varint ?t i 0 0 = Inr (wire, i')"
        by (simp add: decode_varint_take [OF dv])
      note cut = CommonExtensionConfig_Unmarshal_loop_tag [OF lt' dv']
      from full have w: "wireType_of wire \<noteq> 4" "\<not> fieldNum_of wire \<le> 0"
        by (auto split: if_splits)
      consider (f1) "fieldNum_of wire = 1" | (f2) "fieldNum_of wire = 2" | (f3) "fieldNum_of wire = 3"
        | (other) "fieldNum_of wire \<noteq> 1" "fieldNum_of wire \<noteq> 2" "fieldNum_of wire \<noteq> 3"
        by blast
      then show ?thesis
      proof cases
        case f1
        with full w obtain i'' post v where w2: "wireType_of wire = 2"
          and rl: "read_length d i' = Inr (i'', post)"
          and ex: "AdminConfig_Unmarshal AdminConfig_new (slice d i'' post) = Inr v"
          and rest: "?loop (m\<lparr>ConfigType := Some (CommonExtensionConfig_AdminConfig (Some v))\<rparr>) d post
                       = Inr m'"
          by (auto split: if_splits sum.splits)
        from rl dv have b: "i < post" "post \<le> length d"
          by (auto dest!: read_length_bounds decode_varint_bounds)
        show ?thesis
        proof (cases "post \<le> n")
          case False
          with w f1 w2 show ?thesis
            by (simp add: cut read_length_take [OF rl less.prems(3)])
        next
          case True
          from b lt have "length d - post < length d - i" by simp
          from less.hyps [OF this rest True less.prems(3)] w f1 w2 True ex show ?thesis
            by (simp add: cut read_length_take [OF rl less.prems(3)] slice_take)
        qed
      next
        case f2
        with full w obtain i'' post v where w2: "wireType_of wire = 2"
          and rl: "read_length d i' = Inr (i'', post)"
          and ex: "ext_Unmarshal tc (ext_new tc) (slice d i'' post) = Inr v"
          and rest: "?loop (m\<lparr>ConfigType := Some (CommonExtensionConfig_StaticConfig (Some v))\<rparr>) d post
                       = Inr m'"
          by (auto split: if_splits sum.splits)
        from rl dv have b: "i < post" "post \<le> length d"
          by (auto dest!: read_length_bounds decode_varint_bounds)
        show ?thesis
        proof (cases "post \<le> n")
          case False
          with w f2 w2 show ?thesis
            by (simp add: cut read_length_take [OF rl less.prems(3)])
        next
          case True
          from b lt have "length d - post < length d - i" by simp
          from less.hyps [OF this rest True less.prems(3)] w f2 w2 True ex show ?thesis
            by (simp add: cut read_length_take [OF rl less.prems(3)] slice_take)
        qed
      next
        case f3
        with full w obtain i'' post v where w2: "wireType_of wire = 2"
          and rl: "read_length d i' = Inr (i'', post)"
          and ex: "CommonExtensionConfig_TapDSConfig_Unmarshal cs CommonExtensionConfig_TapDSConfig_new
                     (slice d i'' post) = Inr v"
          and rest: "?loop (m\<lparr>ConfigType := Some (CommonExtensionConfig_TapdsConfig (Some v))\<rparr>) d post
                       = Inr m'"
          by (auto split: if_splits sum.splits)
        from rl dv have b: "i < post" "post \<le> length d"
          by (auto dest!: read_length_bounds decode_varint_bounds)
        show ?thesis
        proof (cases "post \<le> n")
          case False
          with w f3 w2 show ?thesis
            by (simp add: cut read_length_take [OF rl less.prems(3)])
        next
          case True
          from b lt have "length d - post < length d - i" by simp
          from less.hyps [OF this rest True less.prems(3)] w f3 w2 True ex show ?thesis
            by (simp add: cut read_length_take [OF rl less.prems(3)] slice_take)
        qed
      next
        case other
        with full w obtain k where sk: "skip_unknown d i = Inr k"
          and rest: "?loop (m\<lparr>XXX_unrecognized := XXX_unrecognized m @ slice d i (i + k)\<rparr>) d (i + k)
                       = Inr m'"
          by (auto split: if_splits sum.splits)
        from sk have b: "0 < k" "i + k \<le> length d" by (auto dest: skip_unknown_bounds)
        note st = skip_unknown_take [OF sk less.prems(3,2)]
        show ?thesis
        proof (cases "i + k \<le> n")
          case False
          with w other show ?thesis by (simp add: cut st)
        next
          case True
          from b lt have "length d - (i + k) < length d - i" by simp
          from less.hyps [OF this rest True less.prems(3)] w other True show ?thesis
            by (simp add: cut st slice_take)
        qed
      qed
    qed
  qed
qed

lemma example_bytes_facts:
  "AdminConfig_Unmarshal AdminConfig_new example_AdminConfig_bytes = Inr example_AdminConfig"
  "5 \<le> length example_AdminConfig_bytes"
  "CommonExtensionConfig_TapDSConfig_Unmarshal opaque_codec CommonExtensionConfig_TapDSConfig_new
     example_TapDSConfig_bytes = Inr example_TapDSConfig"
  "10 \<le> length example_TapDSConfig_bytes"
  "CommonExtensionConfig_Unmarshal opaque_codec opaque_codec CommonExtensionConfig_new
     example_CommonExtensionConfig_bytes = Inr example_CommonExtensionConfig"
  "16 \<le> length example_CommonExtensionConfig_bytes"
  by code_simp+

lemma example_prefix_facts:
  "AdminConfig_Unmarshal AdminConfig_new (take 5 example_AdminConfig_bytes) = Inl ErrUnexpectedEOF"
  "CommonExtensionConfig_TapDSConfig_Unmarshal opaque_codec CommonExtensionConfig_TapDSConfig_new
     (take 10 example_TapDSConfig_bytes)
     = Inr \<lparr>ConfigSource = Some [1, 2, 3], Name = bytes_of ''tap'', TapDSConfig_XXX_unrecognized = []\<rparr>"
  "CommonExtensionConfig_Unmarshal opaque_codec opaque_codec CommonExtensionConfig_new
     (take 16 example_CommonExtensionConfig_bytes) = Inl ErrUnexpectedEOF"
  by code_simp+

section \<open>The skip routine on the fields of the wire format\<close>

text \<open>
  The varint loop reads a varint of the wire format to its value and its end, at every
  shift that leaves room for its bytes.
\<close>

lemma push_bit_or_7:
  "push_bit s ((a :: 64 word) OR push_bit 7 b) = push_bit s a OR push_bit (s + 7) b"
  by (simp add: push_bit_or push_bit_push_bit add.commute)

lemma decode_varint_raw:
  assumes "bs \<noteq> []" "list_all (\<lambda>b. 0x80 \<le> b) (butlast bs)" "last bs < 0x80"
    and "shift + 7 * (length bs - 1) < 64"
  shows "decode_varint (pre @ bs @ post) (length pre) shift w
     = Inr (w OR push_bit shift (varint_value bs), length pre + length bs)"
  using assms
proof (induction bs arbitrary: pre shift w)
  case Nil
  then show ?case by simp
next
  case (Cons b bs)
  from Cons.prems(4) have s: "shift < 64" by simp
  have lt: "length pre < length (pre @ (b # bs) @ post)" by simp
  have nth: "(pre @ (b # bs) @ post) ! length pre = b" by simp
  show ?case
  proof (cases "bs = []")
    case True
    with Cons.prems(3) have b: "b < 0x80" by simp
    have "length pre < length (pre @ b # post)" by simp
    from decode_varint_step [OF s this, of w] b True show ?thesis by simp
  next
    case False
    with Cons.prems have c: "\<not> b < 0x80" and r: "list_all (\<lambda>b. 0x80 \<le> b) (butlast bs)" "last bs < 0x80"
      by (auto simp: not_less)
    from False obtain k where "length bs = Suc k" by (cases bs) auto
    with Cons.prems(4) have sh: "(shift + 7) + 7 * (length bs - 1) < 64" by simp
    have ih: "decode_varint ((pre @ [b]) @ bs @ post) (length (pre @ [b])) (shift + 7)
          (w OR push_bit shift (ucast (b AND 0x7F)))
        = Inr ((w OR push_bit shift (ucast (b AND 0x7F))) OR push_bit (shift + 7) (varint_value bs),
               length (pre @ [b]) + length bs)"
      by (rule Cons.IH [OF False r sh])
    have "decode_varint (pre @ (b # bs) @ post) (length pre) shift w
        = decode_varint (pre @ (b # bs) @ post) (length pre + 1) (shift + 7)
            (w OR push_bit shift (ucast (b AND 0x7F)))"
      using c by (simp only: decode_varint_step [OF s lt] nth if_False)
    with ih show ?thesis
      by (simp add: push_bit_or_7 or.assoc)
  qed
qed

lemma decode_varint_ok:
  assumes "varint_ok bs"
  shows "decode_varint (pre @ bs @ post) (length pre) 0 0 = Inr (varint_value bs, length pre + length bs)"
proof -
  from assms have "length bs \<le> 10" by (simp add: varint_ok_def)
  then have "0 + 7 * (length bs - 1) < 64" by linarith
  with assms decode_varint_raw [of bs 0 pre post 0] show ?thesis
    by (simp add: varint_ok_def)
qed

lemma wireType_of_tag:
  assumes "tag_ok t wt" "unat wt = n"
  shows "wireType_of (varint_value t) = n"
  using assms by (simp add: tag_ok_def wireType_of_def)

lemma fieldNum_of_small:
  assumes "(w :: 64 word) < 2 ^ 32"
  shows "fieldNum_of w = uint (drop_bit 3 w)"
proof -
  define n where "n = unat (drop_bit 3 w)"
  from assms have "unat w < 2 ^ 32" by (simp add: word_less_nat_alt)
  then have u: "n < 2 ^ 29"
    by (simp add: n_def drop_bit_eq_div unat_div)
  have c: "(ucast (drop_bit 3 w) :: 32 word) = word_of_nat n" by (simp add: n_def)
  from u have n: "n < 2 ^ 31" by simp
  then have "n < 2 ^ 32" by simp
  then have "take_bit 32 n = n" by (simp add: take_bit_nat_eq_self)
  then have ui: "uint (word_of_nat n :: 32 word) = int n"
    by (simp add: unsigned_of_nat)
  from n have "int n < int (2 ^ 31)" by (simp only: of_nat_less_iff)
  then have "int n < 2 ^ 31" by simp
  then have "sint (word_of_nat n :: 32 word) = int n"
    by (simp add: sint_uint ui signed_take_bit_int_eq_self)
  then have "fieldNum_of w = int n"
    by (simp only: fieldNum_of_def c)
  also have "\<dots> = uint (drop_bit 3 w)" by (simp add: n_def)
  finally show ?thesis .
qed

lemma fieldNum_of_tag:
  assumes "tag_ok t wt"
  shows "fieldNum_of (varint_value t) = uint (drop_bit 3 (varint_value t))"
    and "0 < fieldNum_of (varint_value t)"
proof -
  from assms have lt: "varint_value t < 2 ^ 32" and nz: "drop_bit 3 (varint_value t) \<noteq> 0"
    by (simp_all add: tag_ok_def)
  show e: "fieldNum_of (varint_value t) = uint (drop_bit 3 (varint_value t))"
    by (rule fieldNum_of_small [OF lt])
  from nz have "uint (drop_bit 3 (varint_value t)) \<noteq> 0" by (simp add: uint_0_iff)
  then show "0 < fieldNum_of (varint_value t)"
    unfolding e using uint_ge_0 [of "drop_bit 3 (varint_value t)"] by linarith
qed

text \<open>
  \<^verbatim>\<open>skipCommon\<close> delimits every well-formed field: started at the tag, it goes on
  behind the field, at depth 0 with the offset as its result. The proof is by induction on
  the field, with the fields of a group skipped one level deeper.
\<close>

lemma skipCommon_loop_tag_ok:
  fixes pre rest :: "byte list"
  assumes "tag_ok t wt"
  defines "d \<equiv> pre @ t @ rest"
  shows "skipCommon_loop d (length pre) depth =
     (case skip_step d (length pre + length t) depth (unat wt) of
        Inl e \<Rightarrow> Inl e
      | Inr (i, depth') \<Rightarrow> if depth' = 0 then Inr i else skipCommon_loop d i depth')"
proof -
  from assms(1) have v: "varint_ok t" by (simp add: tag_ok_def)
  then have lt: "length pre < length d" by (simp add: d_def varint_ok_def)
  have dv: "decode_varint d (length pre) 0 0 = Inr (varint_value t, length pre + length t)"
    unfolding d_def by (rule decode_varint_ok [OF v])
  show ?thesis
    by (simp add: skipCommon_loop_tag [OF lt dv] wireType_of_tag [OF assms(1) refl])
qed

lemma skipCommon_loop_fields:
  assumes "\<And>f pre post. f \<in> set fs \<Longrightarrow> length (pre @ wire_field_bytes f @ post) < 2 ^ 63 \<Longrightarrow>
      skipCommon_loop (pre @ wire_field_bytes f @ post) (length pre) (Suc dp)
        = skipCommon_loop (pre @ wire_field_bytes f @ post)
            (length pre + length (wire_field_bytes f)) (Suc dp)"
    and "length (pre @ wire_fields_bytes fs @ post) < 2 ^ 63"
  shows "skipCommon_loop (pre @ wire_fields_bytes fs @ post) (length pre) (Suc dp)
     = skipCommon_loop (pre @ wire_fields_bytes fs @ post)
         (length pre + length (wire_fields_bytes fs)) (Suc dp)"
  using assms
proof (induction fs arbitrary: pre)
  case Nil
  then show ?case by (simp add: wire_fields_bytes_def)
next
  case (Cons f fs)
  let ?b = "wire_field_bytes f"
  let ?r = "wire_fields_bytes fs"
  from Cons.prems(2) have L: "length (pre @ ?b @ ?r @ post) < 2 ^ 63"
    by (simp add: wire_fields_bytes_def)
  have 1: "skipCommon_loop (pre @ ?b @ ?r @ post) (length pre) (Suc dp)
      = skipCommon_loop (pre @ ?b @ ?r @ post) (length pre + length ?b) (Suc dp)"
    using Cons.prems(1) [of f pre "?r @ post"] L by simp
  have 2: "skipCommon_loop ((pre @ ?b) @ ?r @ post) (length (pre @ ?b)) (Suc dp)
      = skipCommon_loop ((pre @ ?b) @ ?r @ post) (length (pre @ ?b) + length ?r) (Suc dp)"
    using Cons.prems(1) L by (intro Cons.IH) simp_all
  from 1 2 show ?case by (simp add: wire_fields_bytes_def add.assoc)
qed

lemma skipCommon_loop_field:
  assumes "wire_field_ok f" "length (pre @ wire_field_bytes f @ post) < 2 ^ 63"
  shows "skipCommon_loop (pre @ wire_field_bytes f @ post) (length pre) depth
     = (if depth = 0 then Inr (length pre + length (wire_field_bytes f))
        else skipCommon_loop (pre @ wire_field_bytes f @ post)
               (length pre + length (wire_field_bytes f)) depth)"
  using assms
proof (induction f arbitrary: pre post depth)
  case (Varint_field t v)
  from Varint_field.prems have t: "tag_ok t 0" and v: "varint_ok v" by simp_all
  have dv: "decode_varint ((pre @ t) @ v @ post) (length (pre @ t)) 0 0
      = Inr (varint_value v, length (pre @ t) + length v)"
    by (rule decode_varint_ok [OF v])
  show ?case
    using skipCommon_loop_tag_ok [OF t, of pre "v @ post" depth] dv
    by (simp add: skip_step_def add.assoc)
next
  case (Fixed64_field t bs)
  from Fixed64_field.prems have t: "tag_ok t 1" and l: "length bs = 8" by simp_all
  show ?case
    using skipCommon_loop_tag_ok [OF t, of pre "bs @ post" depth] l
    by (simp add: skip_step_def add.assoc)
next
  case (Bytes_field t l bs)
  from Bytes_field.prems have t: "tag_ok t 2" and v: "varint_ok l"
    and e: "varint_value l = word_of_nat (length bs)"
    by simp_all
  have dv: "decode_varint ((pre @ t) @ l @ bs @ post) (length (pre @ t)) 0 0
      = Inr (varint_value l, length (pre @ t) + length l)"
    by (rule decode_varint_ok [OF v])
  from Bytes_field.prems(2) have "length pre + length t + length l + length bs < 2 ^ 63" by simp
  then have al: "add_length (length pre + length t + length l) (word_of_nat (length bs))
      = Inr (length pre + length t + length l + length bs)"
    by (rule add_length_of_nat)
  show ?case
    using skipCommon_loop_tag_ok [OF t, of pre "l @ bs @ post" depth] dv al
    by (simp add: skip_step_def e add.assoc)
next
  case (Group_field t fs e)
  let ?c = "wire_fields_bytes fs"
  let ?d = "pre @ t @ ?c @ e @ post"
  from Group_field.prems have t: "tag_ok t 3" and e: "tag_ok e 4" and ok: "list_all wire_field_ok fs"
    and L: "length ?d < 2 ^ 63" by (simp_all add: wire_fields_bytes_def)
  have 1: "skipCommon_loop ?d (length pre) depth
      = skipCommon_loop ?d (length pre + length t) (Suc depth)"
    using skipCommon_loop_tag_ok [OF t, of pre "?c @ e @ post" depth]
    by (simp add: skip_step_def)
  have 2: "skipCommon_loop ((pre @ t) @ ?c @ e @ post) (length (pre @ t)) (Suc depth)
      = skipCommon_loop ((pre @ t) @ ?c @ e @ post) (length (pre @ t) + length ?c) (Suc depth)"
  proof (rule skipCommon_loop_fields)
    fix f pre' post'
    assume "f \<in> set fs" and "length (pre' @ wire_field_bytes f @ post') < 2 ^ 63"
    moreover from \<open>f \<in> set fs\<close> ok have "wire_field_ok f" by (simp add: list_all_iff)
    ultimately show "skipCommon_loop (pre' @ wire_field_bytes f @ post') (length pre') (Suc depth)
        = skipCommon_loop (pre' @ wire_field_bytes f @ post')
            (length pre' + length (wire_field_bytes f)) (Suc depth)"
      using Group_field.IH [of f pre' post' "Suc depth"] by simp
  next
    from L show "length ((pre @ t) @ ?c @ e @ post) < 2 ^ 63" by simp
  qed
  have 3: "skipCommon_loop ((pre @ t @ ?c) @ e @ post) (length (pre @ t @ ?c)) (Suc depth)
      = (if depth = 0 then Inr (length (pre @ t @ ?c) + length e)
         else skipCommon_loop ((pre @ t @ ?c) @ e @ post) (length (pre @ t @ ?c) + length e) depth)"
    using skipCommon_loop_tag_ok [OF e, of "pre @ t @ ?c" post "Suc depth"]
    by (simp add: skip_step_def)
  from 1 2 3 show ?case by (simp add: wire_fields_bytes_def add.assoc)
next
  case (Fixed32_field t bs)
  from Fixed32_field.prems have t: "tag_ok t 5" and l: "length bs = 4" by simp_all
  show ?case
    using skipCommon_loop_tag_ok [OF t, of pre "bs @ post" depth] l
    by (simp add: skip_step_def add.assoc)
qed

text \<open>
  So the default branch of the three \<^verbatim>\<open>Unmarshal\<close> loops takes a field with an
  unknown number as a whole, and a run of such fields one after the other.
\<close>

lemma wire_fields_bytes_simps:
  "wire_fields_bytes [] = []"
  "wire_fields_bytes (f # fs) = wire_field_bytes f @ wire_fields_bytes fs"
  by (simp_all add: wire_fields_bytes_def)

lemma wire_field_tag:
  assumes "wire_field_ok f"
  obtains wt body where "tag_ok (field_tag f) wt" "wt \<noteq> 4"
    "wire_field_bytes f = field_tag f @ body"
  using assms by (cases f) auto

lemma skipCommon_field:
  assumes "wire_field_ok f" "length (wire_field_bytes f @ post) < 2 ^ 63"
  shows "skipCommon (wire_field_bytes f @ post) = Inr (length (wire_field_bytes f))"
  using skipCommon_loop_field [of f "[]" post 0] assms by (simp add: skipCommon_def)

lemma skip_unknown_field:
  assumes "wire_field_ok f" "length (pre @ wire_field_bytes f @ post) < 2 ^ 63"
  shows "skip_unknown (pre @ wire_field_bytes f @ post) (length pre) = Inr (length (wire_field_bytes f))"
proof -
  from assms(2) have "length (wire_field_bytes f @ post) < 2 ^ 63" by simp
  note s = skipCommon_field [OF assms(1) this]
  from assms(2) have "length pre + length (wire_field_bytes f) < 2 ^ 63" by simp
  then have "int (length pre + length (wire_field_bytes f)) < 2 ^ 63" by (rule int_less_2p63)
  then have "\<not> 2 ^ 63 \<le> int (length pre) + int (length (wire_field_bytes f))" by simp
  then show ?thesis by (simp add: skip_unknown_def s)
qed

lemma wire_field_header:
  fixes pre post :: "byte list"
  assumes "wire_field_ok f"
  defines "d \<equiv> pre @ wire_field_bytes f @ post"
  obtains wire i' where "length pre < length d" "decode_varint d (length pre) 0 0 = Inr (wire, i')"
    "wireType_of wire \<noteq> 4" "0 < fieldNum_of wire" "fieldNum_of wire = uint (field_number f)"
proof -
  from wire_field_tag [OF assms(1)] obtain wt body where
    t: "tag_ok (field_tag f) wt" and w: "wt \<noteq> 4" and b: "wire_field_bytes f = field_tag f @ body"
    by blast
  let ?w = "varint_value (field_tag f)"
  from t have v: "varint_ok (field_tag f)" by (simp add: tag_ok_def)
  then have "length pre < length d" by (simp add: d_def b varint_ok_def)
  moreover have "decode_varint d (length pre) 0 0 = Inr (?w, length pre + length (field_tag f))"
    using decode_varint_ok [OF v, of pre "body @ post"] by (simp add: d_def b)
  moreover from w have "unat wt \<noteq> 4" by (simp add: word_unat_eq_iff)
  then have "wireType_of ?w \<noteq> 4" by (simp add: wireType_of_tag [OF t refl])
  moreover note fieldNum_of_tag(2) [OF t]
  moreover have "fieldNum_of ?w = uint (field_number f)"
    by (simp add: fieldNum_of_tag(1) [OF t] field_number_def)
  ultimately show thesis by (rule that)
qed

lemma slice_field: "slice (pre @ b @ post) (length pre) (length pre + length b) = b"
  by (simp add: slice_def)

lemma uint_known:
  "(x :: 64 word) \<noteq> 1 \<Longrightarrow> uint x \<noteq> 1" "x \<noteq> 2 \<Longrightarrow> uint x \<noteq> 2" "x \<noteq> 3 \<Longrightarrow> uint x \<noteq> 3"
  by (simp_all add: word_uint_eq_iff)

lemma AdminConfig_Unmarshal_loop_wire_field:
  assumes "unknown_field [1] f" and L: "length (pre @ wire_field_bytes f @ post) < 2 ^ 63"
  shows "AdminConfig_Unmarshal_loop m (pre @ wire_field_bytes f @ post) (length pre)
     = AdminConfig_Unmarshal_loop
         (m\<lparr>AdminConfig_XXX_unrecognized := AdminConfig_XXX_unrecognized m @ wire_field_bytes f\<rparr>)
         (pre @ wire_field_bytes f @ post) (length pre + length (wire_field_bytes f))"
proof -
  from assms(1) have ok: "wire_field_ok f" and un: "field_number f \<noteq> 1"
    by (simp_all add: unknown_field_def)
  from wire_field_header [OF ok, of pre post] obtain wire i' where
    h: "length pre < length (pre @ wire_field_bytes f @ post)"
      "decode_varint (pre @ wire_field_bytes f @ post) (length pre) 0 0 = Inr (wire, i')"
    and w: "wireType_of wire \<noteq> 4" "0 < fieldNum_of wire" "fieldNum_of wire = uint (field_number f)"
    by blast
  from un w(3) have n: "fieldNum_of wire \<noteq> 1" by (simp add: uint_known)
  show ?thesis
    using w(1,2) n
    by (simp add: AdminConfig_Unmarshal_loop_tag [OF h] skip_unknown_field [OF ok L] slice_field
        del: append_assoc length_append)
qed

lemma TapDSConfig_Unmarshal_loop_wire_field:
  assumes "unknown_field [1, 2] f" and L: "length (pre @ wire_field_bytes f @ post) < 2 ^ 63"
  shows "CommonExtensionConfig_TapDSConfig_Unmarshal_loop cs m (pre @ wire_field_bytes f @ post) (length pre)
     = CommonExtensionConfig_TapDSConfig_Unmarshal_loop cs
         (m\<lparr>TapDSConfig_XXX_unrecognized := TapDSConfig_XXX_unrecognized m @ wire_field_bytes f\<rparr>)
         (pre @ wire_field_bytes f @ post) (length pre + length (wire_field_bytes f))"
proof -
  from assms(1) have ok: "wire_field_ok f" and un: "field_number f \<noteq> 1" "field_number f \<noteq> 2"
    by (simp_all add: unknown_field_def)
  from wire_field_header [OF ok, of pre post] obtain wire i' where
    h: "length pre < length (pre @ wire_field_bytes f @ post)"
      "decode_varint (pre @ wire_field_bytes f @ post) (length pre) 0 0 = Inr (wire, i')"
    and w: "wireType_of wire \<noteq> 4" "0 < fieldNum_of wire" "fieldNum_of wire = uint (field_number f)"
    by blast
  from un w(3) have n: "fieldNum_of wire \<noteq> 1" "fieldNum_of wire \<noteq> 2" by (simp_all add: uint_known)
  show ?thesis
    using w(1,2) n
    by (simp add: TapDSConfig_Unmarshal_loop_tag [OF h] skip_unknown_field [OF ok L] slice_field
        del: append_assoc length_append)
qed

lemma CommonExtensionConfig_Unmarshal_loop_wire_field:
  assumes "unknown_field [1, 2, 3] f" and L: "length (pre @ wire_field_bytes f @ post) < 2 ^ 63"
  shows "CommonExtensionConfig_Unmarshal_loop tc cs m (pre @ wire_field_bytes f @ post) (length pre)
     = CommonExtensionConfig_Unmarshal_loop tc cs
         (m\<lparr>XXX_unrecognized := XXX_unrecognized m @ wire_field_bytes f\<rparr>)
         (pre @ wire_field_bytes f @ post) (length pre + length (wire_field_bytes f))"
proof -
  from assms(1) have ok: "wire_field_ok f"
    and un: "field_number f \<noteq> 1" "field_number f \<noteq> 2" "field_number f \<noteq> 3"
    by (simp_all add: unknown_field_def)
  from wire_field_header [OF ok, of pre post] obtain wire i' where
    h: "length pre < length (pre @ wire_field_bytes f @ post)"
      "decode_varint (pre @ wire_field_bytes f @ post) (length pre) 0 0 = Inr (wire, i')"
    and w: "wireType_of wire \<noteq> 4" "0 < fieldNum_of wire" "fieldNum_of wire = uint (field_number f)"
    by blast
  from un w(3) have n: "fieldNum_of wire \<noteq> 1" "fieldNum_of wire \<noteq> 2" "fieldNum_of wire \<noteq> 3"
    by (simp_all add: uint_known)
  show ?thesis
    using w(1,2) n
    by (simp add: CommonExtensionConfig_Unmarshal_loop_tag [OF h] skip_unknown_field [OF ok L] slice_field
        del: append_assoc length_append)
qed

lemma AdminConfig_Unmarshal_loop_wire_fields:
  assumes "list_all (unknown_field [1]) fs" "length (pre @ wire_fields_bytes fs @ post) < 2 ^ 63"
  shows "AdminConfig_Unmarshal_loop m (pre @ wire_fields_bytes fs @ post) (length pre)
     = AdminConfig_Unmarshal_loop
         (m\<lparr>AdminConfig_XXX_unrecognized := AdminConfig_XXX_unrecognized m @ wire_fields_bytes fs\<rparr>)
         (pre @ wire_fields_bytes fs @ post) (length pre + length (wire_fields_bytes fs))"
  using assms
proof (induction fs arbitrary: pre m)
  case Nil
  then show ?case by (simp add: wire_fields_bytes_simps)
next
  case (Cons f fs)
  let ?b = "wire_field_bytes f"
  let ?r = "wire_fields_bytes fs"
  let ?m = "m\<lparr>AdminConfig_XXX_unrecognized := AdminConfig_XXX_unrecognized m @ ?b\<rparr>"
  from Cons.prems have u: "unknown_field [1] f" "list_all (unknown_field [1]) fs"
    and L: "length (pre @ ?b @ ?r @ post) < 2 ^ 63"
    by (simp_all add: wire_fields_bytes_simps)
  have 1: "AdminConfig_Unmarshal_loop m (pre @ ?b @ ?r @ post) (length pre)
      = AdminConfig_Unmarshal_loop ?m (pre @ ?b @ ?r @ post) (length pre + length ?b)"
    by (rule AdminConfig_Unmarshal_loop_wire_field [OF u(1) L])
  from L have "length ((pre @ ?b) @ ?r @ post) < 2 ^ 63" by simp
  from Cons.IH [OF u(2) this, of ?m] 1 show ?case
    by (simp add: wire_fields_bytes_simps add.assoc)
qed

lemma TapDSConfig_Unmarshal_loop_wire_fields:
  assumes "list_all (unknown_field [1, 2]) fs" "length (pre @ wire_fields_bytes fs @ post) < 2 ^ 63"
  shows "CommonExtensionConfig_TapDSConfig_Unmarshal_loop cs m (pre @ wire_fields_bytes fs @ post) (length pre)
     = CommonExtensionConfig_TapDSConfig_Unmarshal_loop cs
         (m\<lparr>TapDSConfig_XXX_unrecognized := TapDSConfig_XXX_unrecognized m @ wire_fields_bytes fs\<rparr>)
         (pre @ wire_fields_bytes fs @ post) (length pre + length (wire_fields_bytes fs))"
  using assms
proof (induction fs arbitrary: pre m)
  case Nil
  then show ?case by (simp add: wire_fields_bytes_simps)
next
  case (Cons f fs)
  let ?b = "wire_field_bytes f"
  let ?r = "wire_fields_bytes fs"
  let ?m = "m\<lparr>TapDSConfig_XXX_unrecognized := TapDSConfig_XXX_unrecognized m @ ?b\<rparr>"
  from Cons.prems have u: "unknown_field [1, 2] f" "list_all (unknown_field [1, 2]) fs"
    and L: "length (pre @ ?b @ ?r @ post) < 2 ^ 63"
    by (simp_all add: wire_fields_bytes_simps)
  have 1: "CommonExtensionConfig_TapDSConfig_Unmarshal_loop cs m (pre @ ?b @ ?r @ post) (length pre)
      = CommonExtensionConfig_TapDSConfig_Unmarshal_loop cs ?m (pre @ ?b @ ?r @ post) (length pre + length ?b)"
    by (rule TapDSConfig_Unmarshal_loop_wire_field [OF u(1) L])
  from L have "length ((pre @ ?b) @ ?r @ post) < 2 ^ 63" by simp
  from Cons.IH [OF u(2) this, of ?m] 1 show ?case
    by (simp add: wire_fields_bytes_simps add.assoc)
qed

lemma CommonExtensionConfig_Unmarshal_loop_wire_fields:
  assumes "list_all (unknown_field [1, 2, 3]) fs" "length (pre @ wire_fields_bytes fs @ post) < 2 ^ 63"
  shows "CommonExtensionConfig_Unmarshal_loop tc cs m (pre @ wire_fields_bytes fs @ post) (length pre)
     = CommonExtensionConfig_Unmarshal_loop tc cs
         (m\<lparr>XXX_unrecognized := XXX_unrecognized m @ wire_fields_bytes fs\<rparr>)
         (pre @ wire_fields_bytes fs @ post) (length pre + length (wire_fields_bytes fs))"
  using assms
proof (induction fs arbitrary: pre m)
  case Nil
  then show ?case by (simp add: wire_fields_bytes_simps)
next
  case (Cons f fs)
  let ?b = "wire_field_bytes f"
  let ?r = "wire_fields_bytes fs"
  let ?m = "m\<lparr>XXX_unrecognized := XXX_unrecognized m @ ?b\<rparr>"
  from Cons.prems have u: "unknown_field [1, 2, 3] f" "list_all (unknown_field [1, 2, 3]) fs"
    and L: "length (pre @ ?b @ ?r @ post) < 2 ^ 63"
    by (simp_all add: wire_fields_bytes_simps)
  have 1: "CommonExtensionConfig_Unmarshal_loop tc cs m (pre @ ?b @ ?r @ post) (length pre)
      = CommonExtensionConfig_Unmarshal_loop tc cs ?m (pre @ ?b @ ?r @ post) (length pre + length ?b)"
    by (rule CommonExtensionConfig_Unmarshal_loop_wire_field [OF u(1) L])
  from L have "length ((pre @ ?b) @ ?r @ post) < 2 ^ 63" by simp
  from Cons.IH [OF u(2) this, of ?m] 1 show ?case
    by (simp add: wire_fields_bytes_simps add.assoc)
qed

lemma AdminConfig_Unmarshal_wire_fields:
  assumes "list_all (unknown_field [1]) fs" "length (wire_fields_bytes fs) < 2 ^ 63"
  shows "AdminConfig_Unmarshal m (wire_fields_bytes fs)
     = Inr (m\<lparr>AdminConfig_XXX_unrecognized := AdminConfig_XXX_unrecognized m @ wire_fields_bytes fs\<rparr>)"
  using AdminConfig_Unmarshal_loop_wire_fields [OF assms(1), of "[]" "[]" m] assms(2)
  by (simp add: AdminConfig_Unmarshal_def AdminConfig_Unmarshal_loop_end)

lemma TapDSConfig_Unmarshal_wire_fields:
  assumes "list_all (unknown_field [1, 2]) fs" "length (wire_fields_bytes fs) < 2 ^ 63"
  shows "CommonExtensionConfig_TapDSConfig_Unmarshal cs m (wire_fields_bytes fs)
     = Inr (m\<lparr>TapDSConfig_XXX_unrecognized := TapDSConfig_XXX_unrecognized m @ wire_fields_bytes fs\<rparr>)"
  using TapDSConfig_Unmarshal_loop_wire_fields [OF assms(1), of "[]" "[]" cs m] assms(2)
  by (simp add: CommonExtensionConfig_TapDSConfig_Unmarshal_def TapDSConfig_Unmarshal_loop_end)

lemma CommonExtensionConfig_Unmarshal_wire_fields:
  assumes "list_all (unknown_field [1, 2, 3]) fs" "length (wire_fields_bytes fs) < 2 ^ 63"
  shows "CommonExtensionConfig_Unmarshal tc cs m (wire_fields_bytes fs)
     = Inr (m\<lparr>XXX_unrecognized := XXX_unrecognized m @ wire_fields_bytes fs\<rparr>)"
  using CommonExtensionConfig_Unmarshal_loop_wire_fields [OF assms(1), of "[]" "[]" tc cs m] assms(2)
  by (simp add: CommonExtensionConfig_Unmarshal_def CommonExtensionConfig_Unmarshal_loop_end)

text \<open>\<^verbatim>\<open>Unmarshal\<close> installs wrappers only, never the nil pointer of a wrapper type.\<close>

lemma nil_wrapper_simps:
  "CommonExtensionConfig_nil_wrapper (m\<lparr>XXX_unrecognized := u\<rparr>) = CommonExtensionConfig_nil_wrapper m"
  "\<not> CommonExtensionConfig_nil_wrapper (m\<lparr>ConfigType := Some (CommonExtensionConfig_AdminConfig x)\<rparr>)"
  "\<not> CommonExtensionConfig_nil_wrapper (m\<lparr>ConfigType := Some (CommonExtensionConfig_StaticConfig y)\<rparr>)"
  "\<not> CommonExtensionConfig_nil_wrapper (m\<lparr>ConfigType := Some (CommonExtensionConfig_TapdsConfig z)\<rparr>)"
  "\<not> CommonExtensionConfig_nil_wrapper CommonExtensionConfig_new"
  by (simp_all add: CommonExtensionConfig_nil_wrapper_def ConfigType_nil_wrapper_def
      CommonExtensionConfig_new_def)

lemma CommonExtensionConfig_Unmarshal_loop_nil_wrapper:
  "CommonExtensionConfig_Unmarshal_loop tc cs m d i = Inr m' \<Longrightarrow>
   \<not> CommonExtensionConfig_nil_wrapper m \<Longrightarrow> \<not> CommonExtensionConfig_nil_wrapper m'"
proof (induction "length d - i" arbitrary: m i rule: less_induct)
  case less
  let ?loop = "CommonExtensionConfig_Unmarshal_loop tc cs"
  show ?case
  proof (cases "i < length d")
    case False
    with less.prems show ?thesis
      by (subst (asm) CommonExtensionConfig_Unmarshal_loop.simps) (simp split: if_splits)
  next
    case True
    from less.prems(1) True obtain wire i' where dv: "decode_varint d i 0 0 = Inr (wire, i')"
      by (subst (asm) CommonExtensionConfig_Unmarshal_loop.simps) (auto split: sum.splits)
    note full = less.prems(1) [unfolded CommonExtensionConfig_Unmarshal_loop_tag [OF True dv]]
    from dv have b: "i < i'" by (auto dest: decode_varint_bounds)
    from full less.prems(2) b
    have "\<exists>m1 j. ?loop m1 d j = Inr m' \<and> i < j \<and> \<not> CommonExtensionConfig_nil_wrapper m1"
      by (fastforce split: if_splits sum.splits simp: nil_wrapper_simps
          dest!: read_length_bounds skip_unknown_bounds)
    then obtain m1 j where rest: "?loop m1 d j = Inr m'" and j: "i < j"
      and m1: "\<not> CommonExtensionConfig_nil_wrapper m1"
      by blast
    from j True have "length d - j < length d - i" by simp
    from less.hyps [OF this rest m1] show ?thesis .
  qed
qed

lemma example_wire_fields_facts:
  "wire_field_ok (Fixed64_field [0x29] [1, 2, 3, 4, 5, 6, 7, 8])"
  "unknown_field [1] (Fixed64_field [0x29] [1, 2, 3, 4, 5, 6, 7, 8])"
  "unknown_field [1, 2] (Fixed64_field [0x29] [1, 2, 3, 4, 5, 6, 7, 8])"
  "unknown_field [1, 2, 3] (Fixed64_field [0x29] [1, 2, 3, 4, 5, 6, 7, 8])"
  "list_all (unknown_field [1]) example_wire_fields"
  "list_all (unknown_field [1, 2]) example_wire_fields"
  "list_all (unknown_field [1, 2, 3]) example_wire_fields"
  "wire_fields_bytes example_wire_fields = example_wire_fields_bytes"
  "length example_wire_fields_bytes = 34"
  by code_simp+

section \<open>Nil receivers and getters\<close>

text \<open>
  Claim C10. Every \<^verbatim>\<open>Size\<close> method returns 0 on a nil receiver, and every getter
  returns the zero value (the empty string or nil) when its receiver is nil or when the
  oneof holds another variant, be it a wrapper or the nil pointer of another wrapper type.
  None of these calls fails: the getters of the oneof return their value, not a panic.
\<close>

theorem C10_nil_receivers:
  "AdminConfig_Size None = 0
   \<and> CommonExtensionConfig_TapDSConfig_Size cs None = 0
   \<and> CommonExtensionConfig_Size tc cs None = 0
   \<and> CommonExtensionConfig_AdminConfig_Size None = 0
   \<and> CommonExtensionConfig_StaticConfig_Size tc None = 0
   \<and> CommonExtensionConfig_TapdsConfig_Size cs None = 0
   \<and> AdminConfig_GetConfigId None = []
   \<and> CommonExtensionConfig_TapDSConfig_GetName None = []
   \<and> CommonExtensionConfig_TapDSConfig_GetConfigSource None = None
   \<and> GetConfigType None = None
   \<and> GetAdminConfig None = Inr None
   \<and> GetStaticConfig None = Inr None
   \<and> GetTapdsConfig None = Inr None
   \<and> GetAdminConfig (Some (m\<lparr>ConfigType := None\<rparr>)) = Inr None
   \<and> GetAdminConfig (Some (m\<lparr>ConfigType := Some (CommonExtensionConfig_StaticConfig s)\<rparr>)) = Inr None
   \<and> GetAdminConfig (Some (m\<lparr>ConfigType := Some (CommonExtensionConfig_TapdsConfig t)\<rparr>)) = Inr None
   \<and> GetAdminConfig (Some (m\<lparr>ConfigType := Some CommonExtensionConfig_StaticConfig_nil\<rparr>)) = Inr None
   \<and> GetAdminConfig (Some (m\<lparr>ConfigType := Some CommonExtensionConfig_TapdsConfig_nil\<rparr>)) = Inr None
   \<and> GetStaticConfig (Some (m\<lparr>ConfigType := None\<rparr>)) = Inr None
   \<and> GetStaticConfig (Some (m\<lparr>ConfigType := Some (CommonExtensionConfig_AdminConfig a)\<rparr>)) = Inr None
   \<and> GetStaticConfig (Some (m\<lparr>ConfigType := Some (CommonExtensionConfig_TapdsConfig t)\<rparr>)) = Inr None
   \<and> GetStaticConfig (Some (m\<lparr>ConfigType := Some CommonExtensionConfig_AdminConfig_nil\<rparr>)) = Inr None
   \<and> GetStaticConfig (Some (m\<lparr>ConfigType := Some CommonExtensionConfig_TapdsConfig_nil\<rparr>)) = Inr None
   \<and> GetTapdsConfig (Some (m\<lparr>ConfigType := None\<rparr>)) = Inr None
   \<and> GetTapdsConfig (Some (m\<lparr>ConfigType := Some (CommonExtensionConfig_AdminConfig a)\<rparr>)) = Inr None
   \<and> GetTapdsConfig (Some (m\<lparr>ConfigType := Some (CommonExtensionConfig_StaticConfig s)\<rparr>)) = Inr None
   \<and> GetTapdsConfig (Some (m\<lparr>ConfigType := Some CommonExtensionConfig_AdminConfig_nil\<rparr>)) = Inr None
   \<and> GetTapdsConfig (Some (m\<lparr>ConfigType := Some CommonExtensionConfig_StaticConfig_nil\<rparr>)) = Inr None"
  by (simp add: AdminConfig_Size_def CommonExtensionConfig_TapDSConfig_Size_def
      CommonExtensionConfig_Size_def CommonExtensionConfig_AdminConfig_Size_def
      CommonExtensionConfig_StaticConfig_Size_def CommonExtensionConfig_TapdsConfig_Size_def
      AdminConfig_GetConfigId_def CommonExtensionConfig_TapDSConfig_GetName_def
      CommonExtensionConfig_TapDSConfig_GetConfigSource_def GetConfigType_def
      GetAdminConfig_def GetStaticConfig_def GetTapdsConfig_def)

section \<open>The round trip of \<^verbatim>\<open>AdminConfig{ConfigId: "filter-1"}\<close>\<close>

text \<open>
  Claim C9. \<^verbatim>\<open>Marshal\<close> of \<^verbatim>\<open>AdminConfig{ConfigId: "filter-1"}\<close> with no
  unrecognized bytes returns the ten bytes 0x0a, 0x08 and the bytes of the string, and
  \<^verbatim>\<open>Unmarshal\<close> of these bytes into an empty \<^verbatim>\<open>AdminConfig\<close> gives the original
  struct back.
\<close>

theorem C9_filter_1_round_trip:
  "AdminConfig_Marshal \<lparr>ConfigId = bytes_of ''filter-1'', AdminConfig_XXX_unrecognized = []\<rparr>
     = Inr ([0x0a, 0x08] @ bytes_of ''filter-1'')
   \<and> length ([0x0a, 0x08] @ bytes_of ''filter-1'') = 10
   \<and> AdminConfig_Unmarshal AdminConfig_new ([0x0a, 0x08] @ bytes_of ''filter-1'')
       = Inr \<lparr>ConfigId = bytes_of ''filter-1'', AdminConfig_XXX_unrecognized = []\<rparr>"
  by code_simp

section \<open>Marshal writes exactly Size bytes\<close>

text \<open>
  Claim C1, as the spec states it, fails for a message whose oneof holds the nil pointer of
  a wrapper type. The \<^verbatim>\<open>Size\<close> method of the wrapper tests its receiver and returns
  0; \<^verbatim>\<open>MarshalToSizedBuffer\<close> of the wrapper has no such test and panics when it
  reads the field through the nil pointer. So \<^verbatim>\<open>Size\<close> is 0 and \<^verbatim>\<open>Marshal\<close>
  panics instead of returning no bytes.
\<close>

theorem C1_nil_wrapper_counterexample:
  "CommonExtensionConfig_Size opaque_codec opaque_codec
     (Some \<lparr>ConfigType = Some CommonExtensionConfig_AdminConfig_nil, XXX_unrecognized = []\<rparr>) = 0
   \<and> CommonExtensionConfig_Marshal opaque_codec opaque_codec
       \<lparr>ConfigType = Some CommonExtensionConfig_AdminConfig_nil, XXX_unrecognized = []\<rparr> = Inl Panic"
  by code_simp

text \<open>
  Claim C1, amended. For every \<^verbatim>\<open>AdminConfig\<close>, every
  \<^verbatim>\<open>CommonExtensionConfig_TapDSConfig\<close> and every \<^verbatim>\<open>CommonExtensionConfig\<close> whose
  oneof is not the nil pointer of a wrapper type (it is unset, or a wrapper with or without
  a message), with any fields and unrecognized bytes, \<^verbatim>\<open>Marshal\<close> succeeds and returns
  as many bytes as \<^verbatim>\<open>Size\<close> computed. The messages of the other packages that a value
  holds are taken to keep the same contract: their encoder succeeds and their
  \<^verbatim>\<open>Size\<close> is the length of what it writes.
\<close>

theorem C1_Marshal_length_is_Size:
  "(\<exists>bs. AdminConfig_Marshal a = Inr bs \<and> length bs = AdminConfig_Size (Some a))
   \<and> (TapDSConfig_ext_ok cs t \<longrightarrow>
        (\<exists>bs. CommonExtensionConfig_TapDSConfig_Marshal cs t = Inr bs
           \<and> length bs = CommonExtensionConfig_TapDSConfig_Size cs (Some t)))
   \<and> (CommonExtensionConfig_ext_ok tc cs' c \<and> \<not> CommonExtensionConfig_nil_wrapper c \<longrightarrow>
        (\<exists>bs. CommonExtensionConfig_Marshal tc cs' c = Inr bs
           \<and> length bs = CommonExtensionConfig_Size tc cs' (Some c)))"
  by (simp add: AdminConfig_Marshal_eq length_AdminConfig_encoding
      TapDSConfig_Marshal_eq length_TapDSConfig_encoding
      CommonExtensionConfig_Marshal_eq length_CommonExtensionConfig_encoding)

text \<open>The theorem of C1 at a value with a \<^verbatim>\<open>ConfigSource\<close> and at one with a \<^verbatim>\<open>StaticConfig\<close>.\<close>

theorem C1_Marshal_length_is_Size_witness:
  "TapDSConfig_ext_ok opaque_codec
     \<lparr>ConfigSource = Some [1, 2, 3], Name = bytes_of ''tap'', TapDSConfig_XXX_unrecognized = [0x18, 0x01]\<rparr>
   \<and> CommonExtensionConfig_ext_ok opaque_codec opaque_codec
     \<lparr>ConfigType = Some (CommonExtensionConfig_StaticConfig (Some [7, 7])), XXX_unrecognized = [0x20, 0x05]\<rparr>
   \<and> \<not> CommonExtensionConfig_nil_wrapper
     \<lparr>ConfigType = Some (CommonExtensionConfig_StaticConfig (Some [7, 7 :: byte])) ::
          (byte list, byte list) isCommonExtensionConfig_ConfigType option,
      XXX_unrecognized = [0x20, 0x05]\<rparr>
   \<and> (\<exists>bs. CommonExtensionConfig_TapDSConfig_Marshal opaque_codec
          \<lparr>ConfigSource = Some [1, 2, 3], Name = bytes_of ''tap'', TapDSConfig_XXX_unrecognized = [0x18, 0x01]\<rparr>
            = Inr bs
        \<and> length bs = CommonExtensionConfig_TapDSConfig_Size opaque_codec
          (Some \<lparr>ConfigSource = Some [1, 2, 3], Name = bytes_of ''tap'', TapDSConfig_XXX_unrecognized = [0x18, 0x01]\<rparr>))
   \<and> (\<exists>bs. CommonExtensionConfig_Marshal opaque_codec opaque_codec
          \<lparr>ConfigType = Some (CommonExtensionConfig_StaticConfig (Some [7, 7])), XXX_unrecognized = [0x20, 0x05]\<rparr>
            = Inr bs
        \<and> length bs = CommonExtensionConfig_Size opaque_codec opaque_codec
          (Some \<lparr>ConfigType = Some (CommonExtensionConfig_StaticConfig (Some [7, 7])), XXX_unrecognized = [0x20, 0x05]\<rparr>))"
  using C1_Marshal_length_is_Size [of _ opaque_codec
      "\<lparr>ConfigSource = Some [1, 2, 3], Name = bytes_of ''tap'', TapDSConfig_XXX_unrecognized = [0x18, 0x01]\<rparr>"
      opaque_codec opaque_codec
      "\<lparr>ConfigType = Some (CommonExtensionConfig_StaticConfig (Some [7, 7])), XXX_unrecognized = [0x20, 0x05]\<rparr>"]
  by (simp add: TapDSConfig_ext_ok_def CommonExtensionConfig_ext_ok_def ConfigType_ext_ok_def
      CommonExtensionConfig_nil_wrapper_def ConfigType_nil_wrapper_def
      ext_marshal_ok_def opaque_codec_def)

section \<open>One branch, one tag\<close>

text \<open>
  Claim C8, as the spec states it, fails for a oneof that is set to a wrapper whose message
  pointer is nil: each wrapper writes its tag inside \<^verbatim>\<open>if m.AdminConfig != nil\<close> (and
  the like), so the output is empty and does not begin with the tag byte of the branch.
\<close>

theorem C8_empty_wrapper_counterexample:
  "CommonExtensionConfig_Marshal opaque_codec opaque_codec
     \<lparr>ConfigType = Some (CommonExtensionConfig_AdminConfig None), XXX_unrecognized = []\<rparr> = Inr []
   \<and> CommonExtensionConfig_Marshal opaque_codec opaque_codec
     \<lparr>ConfigType = Some (CommonExtensionConfig_StaticConfig None), XXX_unrecognized = []\<rparr> = Inr []
   \<and> CommonExtensionConfig_Marshal opaque_codec opaque_codec
     \<lparr>ConfigType = Some (CommonExtensionConfig_TapdsConfig None), XXX_unrecognized = []\<rparr> = Inr []"
  by code_simp

text \<open>
  Claim C8, amended. A \<^verbatim>\<open>CommonExtensionConfig\<close> with no unrecognized bytes whose
  oneof is a wrapper that holds a message is encoded as the tag byte of that branch (0x0a
  for \<^verbatim>\<open>AdminConfig\<close>, 0x12 for \<^verbatim>\<open>StaticConfig\<close>, 0x1a for
  \<^verbatim>\<open>TapdsConfig\<close>), the length of the nested encoding and the nested encoding, and
  nothing else. When the oneof is a wrapper whose message pointer is nil, the output is
  empty: no byte of any branch is written. (The nil pointer of a wrapper type in the oneof
  is the case of claim C1 and is left out here.)
\<close>

theorem C8_only_the_branch_set:
  "(\<exists>p. AdminConfig_Marshal a = Inr p
      \<and> CommonExtensionConfig_Marshal tc cs
           \<lparr>ConfigType = Some (CommonExtensionConfig_AdminConfig (Some a)), XXX_unrecognized = []\<rparr>
          = Inr (0x0a # varint_bytes (word_of_nat (length p)) @ p))
   \<and> (ext_marshal_ok tc s \<longrightarrow>
        (\<exists>p. ext_Marshal tc s = Inr p
          \<and> CommonExtensionConfig_Marshal tc cs
               \<lparr>ConfigType = Some (CommonExtensionConfig_StaticConfig (Some s)), XXX_unrecognized = []\<rparr>
              = Inr (0x12 # varint_bytes (word_of_nat (length p)) @ p)))
   \<and> (TapDSConfig_ext_ok cs t \<longrightarrow>
        (\<exists>p. CommonExtensionConfig_TapDSConfig_Marshal cs t = Inr p
          \<and> CommonExtensionConfig_Marshal tc cs
               \<lparr>ConfigType = Some (CommonExtensionConfig_TapdsConfig (Some t)), XXX_unrecognized = []\<rparr>
              = Inr (0x1a # varint_bytes (word_of_nat (length p)) @ p)))
   \<and> CommonExtensionConfig_Marshal tc cs
        \<lparr>ConfigType = Some (CommonExtensionConfig_AdminConfig None), XXX_unrecognized = []\<rparr> = Inr []
   \<and> CommonExtensionConfig_Marshal tc cs
        \<lparr>ConfigType = Some (CommonExtensionConfig_StaticConfig None), XXX_unrecognized = []\<rparr> = Inr []
   \<and> CommonExtensionConfig_Marshal tc cs
        \<lparr>ConfigType = Some (CommonExtensionConfig_TapdsConfig None), XXX_unrecognized = []\<rparr> = Inr []"
proof (intro conjI impI)
  show "\<exists>p. AdminConfig_Marshal a = Inr p
      \<and> CommonExtensionConfig_Marshal tc cs
           \<lparr>ConfigType = Some (CommonExtensionConfig_AdminConfig (Some a)), XXX_unrecognized = []\<rparr>
          = Inr (0x0a # varint_bytes (word_of_nat (length p)) @ p)"
    by (simp add: AdminConfig_Marshal_eq CommonExtensionConfig_Marshal_eq
        CommonExtensionConfig_nil_wrapper_def ConfigType_nil_wrapper_def
        CommonExtensionConfig_ext_ok_def ConfigType_ext_ok_def CommonExtensionConfig_encoding_def
        isCommonExtensionConfig_ConfigType_encoding_def field_bytes_def)
next
  assume "ext_marshal_ok tc s"
  then show "\<exists>p. ext_Marshal tc s = Inr p
          \<and> CommonExtensionConfig_Marshal tc cs
               \<lparr>ConfigType = Some (CommonExtensionConfig_StaticConfig (Some s)), XXX_unrecognized = []\<rparr>
              = Inr (0x12 # varint_bytes (word_of_nat (length p)) @ p)"
    by (simp add: ext_marshal_okD CommonExtensionConfig_Marshal_eq
        CommonExtensionConfig_nil_wrapper_def ConfigType_nil_wrapper_def
        CommonExtensionConfig_ext_ok_def ConfigType_ext_ok_def CommonExtensionConfig_encoding_def
        isCommonExtensionConfig_ConfigType_encoding_def field_bytes_def)
next
  assume "TapDSConfig_ext_ok cs t"
  then show "\<exists>p. CommonExtensionConfig_TapDSConfig_Marshal cs t = Inr p
          \<and> CommonExtensionConfig_Marshal tc cs
               \<lparr>ConfigType = Some (CommonExtensionConfig_TapdsConfig (Some t)), XXX_unrecognized = []\<rparr>
              = Inr (0x1a # varint_bytes (word_of_nat (length p)) @ p)"
    by (simp add: TapDSConfig_Marshal_eq CommonExtensionConfig_Marshal_eq
        CommonExtensionConfig_nil_wrapper_def ConfigType_nil_wrapper_def
        CommonExtensionConfig_ext_ok_def ConfigType_ext_ok_def CommonExtensionConfig_encoding_def
        isCommonExtensionConfig_ConfigType_encoding_def field_bytes_def)
qed (simp_all add: CommonExtensionConfig_Marshal_eq
    CommonExtensionConfig_nil_wrapper_def ConfigType_nil_wrapper_def
    CommonExtensionConfig_ext_ok_def ConfigType_ext_ok_def CommonExtensionConfig_encoding_def
    isCommonExtensionConfig_ConfigType_encoding_def)

text \<open>The theorem of C8 at a \<^verbatim>\<open>StaticConfig\<close> and at a \<^verbatim>\<open>TapdsConfig\<close>.\<close>

theorem C8_only_the_branch_set_witness:
  "ext_marshal_ok opaque_codec [7, 7]
   \<and> TapDSConfig_ext_ok opaque_codec
        \<lparr>ConfigSource = Some [1, 2, 3], Name = [], TapDSConfig_XXX_unrecognized = []\<rparr>
   \<and> CommonExtensionConfig_Marshal opaque_codec opaque_codec
        \<lparr>ConfigType = Some (CommonExtensionConfig_StaticConfig (Some [7, 7])), XXX_unrecognized = []\<rparr>
        = Inr [0x12, 2, 7, 7]
   \<and> CommonExtensionConfig_Marshal opaque_codec opaque_codec
        \<lparr>ConfigType = Some (CommonExtensionConfig_TapdsConfig
           (Some \<lparr>ConfigSource = Some [1, 2, 3], Name = [], TapDSConfig_XXX_unrecognized = []\<rparr>)),
         XXX_unrecognized = []\<rparr>
        = Inr [0x1a, 5, 0x0a, 3, 1, 2, 3]"
proof -
  have h1: "ext_marshal_ok opaque_codec [7, 7]"
    by (simp add: ext_marshal_ok_def opaque_codec_def)
  have h2: "TapDSConfig_ext_ok opaque_codec
        \<lparr>ConfigSource = Some [1, 2, 3], Name = [], TapDSConfig_XXX_unrecognized = []\<rparr>"
    by (simp add: TapDSConfig_ext_ok_def ext_marshal_ok_def opaque_codec_def)
  have m1: "ext_Marshal opaque_codec [7, 7 :: byte] = Inr [7, 7]"
    by (simp add: opaque_codec_def)
  have m2: "CommonExtensionConfig_TapDSConfig_Marshal opaque_codec
        \<lparr>ConfigSource = Some [1, 2, 3], Name = [], TapDSConfig_XXX_unrecognized = []\<rparr>
      = Inr [0x0a, 3, 1, 2, 3]"
    by code_simp
  have v: "varint_bytes 2 = [2]" "varint_bytes 5 = [5]" by code_simp+
  from C8_only_the_branch_set [of _ opaque_codec opaque_codec "[7, 7]"
      "\<lparr>ConfigSource = Some [1, 2, 3], Name = [], TapDSConfig_XXX_unrecognized = []\<rparr>"]
    h1 h2 show ?thesis
    by (simp add: m1 m2 v)
qed

section \<open>The round trip\<close>

text \<open>
  Claim C2, as the spec states it, fails: the unrecognized bytes of a message are written
  as they are, and \<^verbatim>\<open>Unmarshal\<close> reads them as fields. An \<^verbatim>\<open>AdminConfig\<close> with
  an empty \<^verbatim>\<open>ConfigId\<close> whose unrecognized bytes are 0x0a 0x01 0x41 is encoded as these
  three bytes, which decode to \<^verbatim>\<open>ConfigId = "A"\<close> and no unrecognized bytes.
\<close>

theorem C2_round_trip_counterexample:
  "AdminConfig_Marshal \<lparr>ConfigId = [], AdminConfig_XXX_unrecognized = [0x0a, 0x01, 0x41]\<rparr>
     = Inr [0x0a, 0x01, 0x41]
   \<and> AdminConfig_Unmarshal AdminConfig_new [0x0a, 0x01, 0x41]
     = Inr \<lparr>ConfigId = [0x41], AdminConfig_XXX_unrecognized = []\<rparr>
   \<and> \<lparr>ConfigId = [0x41], AdminConfig_XXX_unrecognized = []\<rparr>
     \<noteq> \<lparr>ConfigId = [], AdminConfig_XXX_unrecognized = [0x0a, 0x01, 0x41 :: byte]\<rparr>"
  by code_simp

text \<open>
  Claim C2, amended. \<^verbatim>\<open>Unmarshal\<close> into an empty message of the bytes that
  \<^verbatim>\<open>Marshal\<close> returns for \<open>m\<close> gives \<open>m\<close> back, field for field, when \<open>m\<close> is
  well formed: its unrecognized bytes (and those of its nested messages) are whole fields
  with numbers that the schema does not know, as \<^verbatim>\<open>Unmarshal\<close> stores them, and the
  wrapper of the oneof, if set, holds a message. The encoding is shorter than \<open>2 ^ 63\<close>
  bytes, as every Go slice is, and the messages of the other packages keep their own
  contract (their encoder succeeds with \<^verbatim>\<open>Size\<close> bytes, their decoder reads them back).
\<close>

theorem C2_round_trip_of_well_formed_messages:
  "(AdminConfig_well_formed a \<and> AdminConfig_Size (Some a) < 2 ^ 63 \<longrightarrow>
      (\<exists>bs. AdminConfig_Marshal a = Inr bs \<and> AdminConfig_Unmarshal AdminConfig_new bs = Inr a))
   \<and> (TapDSConfig_well_formed cs t \<and> TapDSConfig_ext_ok cs t
        \<and> CommonExtensionConfig_TapDSConfig_Size cs (Some t) < 2 ^ 63 \<longrightarrow>
      (\<exists>bs. CommonExtensionConfig_TapDSConfig_Marshal cs t = Inr bs
         \<and> CommonExtensionConfig_TapDSConfig_Unmarshal cs CommonExtensionConfig_TapDSConfig_new bs = Inr t))
   \<and> (CommonExtensionConfig_well_formed tc cs' c \<and> CommonExtensionConfig_ext_ok tc cs' c
        \<and> CommonExtensionConfig_Size tc cs' (Some c) < 2 ^ 63 \<longrightarrow>
      (\<exists>bs. CommonExtensionConfig_Marshal tc cs' c = Inr bs
         \<and> CommonExtensionConfig_Unmarshal tc cs' CommonExtensionConfig_new bs = Inr c))"
proof (intro conjI impI; elim conjE)
  assume "AdminConfig_well_formed a" "AdminConfig_Size (Some a) < 2 ^ 63"
  then have "AdminConfig_Unmarshal AdminConfig_new (AdminConfig_encoding a) = Inr a"
    by (intro AdminConfig_round_trip)
      (simp_all only: AdminConfig_well_formed_def length_AdminConfig_encoding)
  then show "\<exists>bs. AdminConfig_Marshal a = Inr bs \<and> AdminConfig_Unmarshal AdminConfig_new bs = Inr a"
    by (simp only: AdminConfig_Marshal_eq) blast
next
  assume wf: "TapDSConfig_well_formed cs t" and ok: "TapDSConfig_ext_ok cs t"
    and L: "CommonExtensionConfig_TapDSConfig_Size cs (Some t) < 2 ^ 63"
  from L have "length (CommonExtensionConfig_TapDSConfig_encoding cs t) < 2 ^ 63"
    by (simp only: length_TapDSConfig_encoding [OF ok])
  with wf have "CommonExtensionConfig_TapDSConfig_Unmarshal cs CommonExtensionConfig_TapDSConfig_new
      (CommonExtensionConfig_TapDSConfig_encoding cs t) = Inr t"
    unfolding TapDSConfig_well_formed_def by (intro TapDSConfig_round_trip) blast+
  then show "\<exists>bs. CommonExtensionConfig_TapDSConfig_Marshal cs t = Inr bs
         \<and> CommonExtensionConfig_TapDSConfig_Unmarshal cs CommonExtensionConfig_TapDSConfig_new bs = Inr t"
    by (simp only: TapDSConfig_Marshal_eq [OF ok]) blast
next
  assume wf: "CommonExtensionConfig_well_formed tc cs' c" and ok: "CommonExtensionConfig_ext_ok tc cs' c"
    and L: "CommonExtensionConfig_Size tc cs' (Some c) < 2 ^ 63"
  from L have "length (CommonExtensionConfig_encoding tc cs' c) < 2 ^ 63"
    by (simp only: length_CommonExtensionConfig_encoding [OF ok])
  with wf have "CommonExtensionConfig_Unmarshal tc cs' CommonExtensionConfig_new
      (CommonExtensionConfig_encoding tc cs' c) = Inr c"
    by (intro CommonExtensionConfig_round_trip)
  then show "\<exists>bs. CommonExtensionConfig_Marshal tc cs' c = Inr bs
         \<and> CommonExtensionConfig_Unmarshal tc cs' CommonExtensionConfig_new bs = Inr c"
    by (simp only: CommonExtensionConfig_Marshal_eq [OF ok well_formed_not_nil_wrapper [OF wf]]) blast
qed

text \<open>The theorem of C2 at the three example values.\<close>

theorem C2_round_trip_of_well_formed_messages_witness:
  "(AdminConfig_well_formed example_AdminConfig \<and> AdminConfig_Size (Some example_AdminConfig) < 2 ^ 63)
   \<and> (TapDSConfig_well_formed opaque_codec example_TapDSConfig
        \<and> TapDSConfig_ext_ok opaque_codec example_TapDSConfig
        \<and> CommonExtensionConfig_TapDSConfig_Size opaque_codec (Some example_TapDSConfig) < 2 ^ 63)
   \<and> (CommonExtensionConfig_well_formed opaque_codec opaque_codec example_CommonExtensionConfig
        \<and> CommonExtensionConfig_ext_ok opaque_codec opaque_codec example_CommonExtensionConfig
        \<and> CommonExtensionConfig_Size opaque_codec opaque_codec (Some example_CommonExtensionConfig) < 2 ^ 63)
   \<and> (\<exists>bs. AdminConfig_Marshal example_AdminConfig = Inr bs
         \<and> AdminConfig_Unmarshal AdminConfig_new bs = Inr example_AdminConfig)
   \<and> (\<exists>bs. CommonExtensionConfig_TapDSConfig_Marshal opaque_codec example_TapDSConfig = Inr bs
         \<and> CommonExtensionConfig_TapDSConfig_Unmarshal opaque_codec CommonExtensionConfig_TapDSConfig_new bs
             = Inr example_TapDSConfig)
   \<and> (\<exists>bs. CommonExtensionConfig_Marshal opaque_codec opaque_codec example_CommonExtensionConfig = Inr bs
         \<and> CommonExtensionConfig_Unmarshal opaque_codec opaque_codec CommonExtensionConfig_new bs
             = Inr example_CommonExtensionConfig)"
proof -
  have h: "AdminConfig_Size (Some example_AdminConfig) < 2 ^ 63"
    "CommonExtensionConfig_TapDSConfig_Size opaque_codec (Some example_TapDSConfig) < 2 ^ 63"
    "CommonExtensionConfig_Size opaque_codec opaque_codec (Some example_CommonExtensionConfig) < 2 ^ 63"
    by (simp_all add: example_facts)
  from C2_round_trip_of_well_formed_messages [of example_AdminConfig opaque_codec example_TapDSConfig
      opaque_codec opaque_codec example_CommonExtensionConfig] h example_facts(1,3,4,6,7)
  show ?thesis by blast
qed

section \<open>Wire types\<close>

text \<open>
  Claim C6, as the spec states it, fails for wire type 4: every \<^verbatim>\<open>Unmarshal\<close> tests
  \<^verbatim>\<open>wireType == 4\<close> before it looks at the field number, so the tag 0x0c (field 1,
  wire type 4) is refused with the error "wiretype end group for non-group", not with the
  error "wrong wireType" of the field.
\<close>

theorem C6_wrong_wire_type_counterexample:
  "fieldNum_of 0x0c = 1 \<and> wireType_of 0x0c = 4
   \<and> decode_varint [0x0c] 0 0 0 = Inr (0x0c, 1)
   \<and> AdminConfig_Unmarshal AdminConfig_new [0x0c] = Inl (ErrEndGroupForNonGroup ''AdminConfig'')"
  by code_simp

text \<open>
  Claim C6, amended. When the decoding loop of a message stands at a tag whose field number
  the schema knows and whose wire type is not 2, \<^verbatim>\<open>Unmarshal\<close> fails: with the
  wrong-wire-type error of that field when the wire type is 0, 1, 3, 5, 6 or 7, and with the
  end-group error of the message when it is 4.
\<close>

theorem C6_wrong_wire_type:
  assumes "iNdEx < length dAtA" "decode_varint dAtA iNdEx 0 0 = Inr (wire, iNdEx')"
    and "wireType_of wire \<noteq> 2"
  shows "(fieldNum_of wire = 1 \<longrightarrow>
            AdminConfig_Unmarshal_loop a dAtA iNdEx =
              Inl (if wireType_of wire = 4 then ErrEndGroupForNonGroup ''AdminConfig''
                   else ErrWrongWireType (wireType_of wire) ''ConfigId''))
       \<and> (fieldNum_of wire = 1 \<longrightarrow>
            CommonExtensionConfig_TapDSConfig_Unmarshal_loop cs t dAtA iNdEx =
              Inl (if wireType_of wire = 4 then ErrEndGroupForNonGroup ''TapDSConfig''
                   else ErrWrongWireType (wireType_of wire) ''ConfigSource''))
       \<and> (fieldNum_of wire = 2 \<longrightarrow>
            CommonExtensionConfig_TapDSConfig_Unmarshal_loop cs t dAtA iNdEx =
              Inl (if wireType_of wire = 4 then ErrEndGroupForNonGroup ''TapDSConfig''
                   else ErrWrongWireType (wireType_of wire) ''Name''))
       \<and> (fieldNum_of wire = 1 \<longrightarrow>
            CommonExtensionConfig_Unmarshal_loop tc cs' c dAtA iNdEx =
              Inl (if wireType_of wire = 4 then ErrEndGroupForNonGroup ''CommonExtensionConfig''
                   else ErrWrongWireType (wireType_of wire) ''AdminConfig''))
       \<and> (fieldNum_of wire = 2 \<longrightarrow>
            CommonExtensionConfig_Unmarshal_loop tc cs' c dAtA iNdEx =
              Inl (if wireType_of wire = 4 then ErrEndGroupForNonGroup ''CommonExtensionConfig''
                   else ErrWrongWireType (wireType_of wire) ''StaticConfig''))
       \<and> (fieldNum_of wire = 3 \<longrightarrow>
            CommonExtensionConfig_Unmarshal_loop tc cs' c dAtA iNdEx =
              Inl (if wireType_of wire = 4 then ErrEndGroupForNonGroup ''CommonExtensionConfig''
                   else ErrWrongWireType (wireType_of wire) ''TapdsConfig''))"
  using assms(3)
  by (simp add: AdminConfig_Unmarshal_loop_tag [OF assms(1,2)]
      TapDSConfig_Unmarshal_loop_tag [OF assms(1,2)]
      CommonExtensionConfig_Unmarshal_loop_tag [OF assms(1,2)])

text \<open>The theorem of C6 at the tag 0x08: field 1 with wire type 0.\<close>

theorem C6_wrong_wire_type_witness:
  "(0 < length [0x08, 0x01 :: byte] \<and> decode_varint [0x08, 0x01] 0 0 0 = Inr (0x08, 1)
      \<and> wireType_of 0x08 \<noteq> 2 \<and> fieldNum_of 0x08 = 1)
   \<and> AdminConfig_Unmarshal_loop AdminConfig_new [0x08, 0x01] 0 = Inl (ErrWrongWireType 0 ''ConfigId'')
   \<and> CommonExtensionConfig_TapDSConfig_Unmarshal_loop opaque_codec example_TapDSConfig [0x08, 0x01] 0
       = Inl (ErrWrongWireType 0 ''ConfigSource'')
   \<and> CommonExtensionConfig_Unmarshal_loop opaque_codec opaque_codec example_CommonExtensionConfig
         [0x08, 0x01] 0
       = Inl (ErrWrongWireType 0 ''AdminConfig'')"
proof -
  have h: "0 < length [0x08, 0x01 :: byte]" "decode_varint [0x08, 0x01] 0 0 0 = Inr (0x08, 1)"
    "wireType_of 0x08 \<noteq> 2" "fieldNum_of 0x08 = 1" "wireType_of 0x08 = 0"
    by code_simp+
  from C6_wrong_wire_type [OF h(1,2,3), of AdminConfig_new opaque_codec example_TapDSConfig
      opaque_codec opaque_codec example_CommonExtensionConfig] h
  show ?thesis by simp
qed

section \<open>The oneof after decoding\<close>

text \<open>
  Claim C4. The field \<^verbatim>\<open>ConfigType\<close> holds one wrapper or none. When the loop of
  \<^verbatim>\<open>CommonExtensionConfig.Unmarshal\<close> reads a field with number 1, 2 or 3, it goes on
  with the wrapper of that number as \<^verbatim>\<open>ConfigType\<close>, whatever \<^verbatim>\<open>ConfigType\<close>
  was before; and when only unknown fields follow, this wrapper, the one of the last such
  field, is the variant of the result.
\<close>

theorem C4_last_oneof_field_wins:
  assumes "iNdEx < length dAtA" "decode_varint dAtA iNdEx 0 0 = Inr (wire, iNdEx')"
    and "wireType_of wire = 2" "read_length dAtA iNdEx' = Inr (iNdEx'', postIndex)"
  shows "(fieldNum_of wire = 1 \<and> AdminConfig_Unmarshal AdminConfig_new (slice dAtA iNdEx'' postIndex) = Inr a
            \<longrightarrow>
            CommonExtensionConfig_Unmarshal_loop tc cs m dAtA iNdEx
              = CommonExtensionConfig_Unmarshal_loop tc cs
                  (m\<lparr>ConfigType := Some (CommonExtensionConfig_AdminConfig (Some a))\<rparr>) dAtA postIndex
            \<and> (unknown_fields [1, 2, 3] dAtA postIndex \<longrightarrow>
                 CommonExtensionConfig_Unmarshal_loop tc cs m dAtA iNdEx
                   = Inr \<lparr>ConfigType = Some (CommonExtensionConfig_AdminConfig (Some a)),
                          XXX_unrecognized = XXX_unrecognized m @ drop postIndex dAtA\<rparr>))
       \<and> (fieldNum_of wire = 2 \<and> ext_Unmarshal tc (ext_new tc) (slice dAtA iNdEx'' postIndex) = Inr s
            \<longrightarrow>
            CommonExtensionConfig_Unmarshal_loop tc cs m dAtA iNdEx
              = CommonExtensionConfig_Unmarshal_loop tc cs
                  (m\<lparr>ConfigType := Some (CommonExtensionConfig_StaticConfig (Some s))\<rparr>) dAtA postIndex
            \<and> (unknown_fields [1, 2, 3] dAtA postIndex \<longrightarrow>
                 CommonExtensionConfig_Unmarshal_loop tc cs m dAtA iNdEx
                   = Inr \<lparr>ConfigType = Some (CommonExtensionConfig_StaticConfig (Some s)),
                          XXX_unrecognized = XXX_unrecognized m @ drop postIndex dAtA\<rparr>))
       \<and> (fieldNum_of wire = 3
            \<and> CommonExtensionConfig_TapDSConfig_Unmarshal cs CommonExtensionConfig_TapDSConfig_new
                 (slice dAtA iNdEx'' postIndex) = Inr t
            \<longrightarrow>
            CommonExtensionConfig_Unmarshal_loop tc cs m dAtA iNdEx
              = CommonExtensionConfig_Unmarshal_loop tc cs
                  (m\<lparr>ConfigType := Some (CommonExtensionConfig_TapdsConfig (Some t))\<rparr>) dAtA postIndex
            \<and> (unknown_fields [1, 2, 3] dAtA postIndex \<longrightarrow>
                 CommonExtensionConfig_Unmarshal_loop tc cs m dAtA iNdEx
                   = Inr \<lparr>ConfigType = Some (CommonExtensionConfig_TapdsConfig (Some t)),
                          XXX_unrecognized = XXX_unrecognized m @ drop postIndex dAtA\<rparr>))"
proof -
  from assms(4) have le: "postIndex \<le> length dAtA" by (auto dest: read_length_bounds)
  have u: "unknown_fields [1, 2, 3] dAtA postIndex \<Longrightarrow>
      CommonExtensionConfig_Unmarshal_loop tc cs (m\<lparr>ConfigType := v\<rparr>) dAtA postIndex
        = Inr \<lparr>ConfigType = v, XXX_unrecognized = XXX_unrecognized m @ drop postIndex dAtA\<rparr>" for v
    by (simp add: CommonExtensionConfig_Unmarshal_loop_unknown le)
  show ?thesis
    using assms(3,4) u
    by (simp add: CommonExtensionConfig_Unmarshal_loop_tag [OF assms(1,2)])
qed

text \<open>
  The theorem of C4 at a buffer with field 1, then field 3, then an unknown field: the loop
  stands at field 3 with the wrapper of field 1 active.
\<close>

theorem C4_last_oneof_field_wins_witness:
  "(2 < length [0x0a, 0x00, 0x1a, 0x02, 0x12, 0x00, 0x20, 0x01 :: byte]
      \<and> decode_varint [0x0a, 0x00, 0x1a, 0x02, 0x12, 0x00, 0x20, 0x01] 2 0 0 = Inr (0x1a, 3)
      \<and> wireType_of 0x1a = 2 \<and> fieldNum_of 0x1a = 3
      \<and> read_length [0x0a, 0x00, 0x1a, 0x02, 0x12, 0x00, 0x20, 0x01] 3 = Inr (4, 6)
      \<and> CommonExtensionConfig_TapDSConfig_Unmarshal opaque_codec CommonExtensionConfig_TapDSConfig_new
           (slice [0x0a, 0x00, 0x1a, 0x02, 0x12, 0x00, 0x20, 0x01] 4 6)
           = Inr CommonExtensionConfig_TapDSConfig_new
      \<and> unknown_fields [1, 2, 3] [0x0a, 0x00, 0x1a, 0x02, 0x12, 0x00, 0x20, 0x01] 6)
   \<and> CommonExtensionConfig_Unmarshal_loop opaque_codec opaque_codec
         \<lparr>ConfigType = Some (CommonExtensionConfig_AdminConfig (Some AdminConfig_new)),
          XXX_unrecognized = []\<rparr>
         [0x0a, 0x00, 0x1a, 0x02, 0x12, 0x00, 0x20, 0x01] 2
       = Inr \<lparr>ConfigType = Some (CommonExtensionConfig_TapdsConfig
                                   (Some CommonExtensionConfig_TapDSConfig_new)),
              XXX_unrecognized = [0x20, 0x01]\<rparr>"
proof -
  let ?d = "[0x0a, 0x00, 0x1a, 0x02, 0x12, 0x00, 0x20, 0x01 :: byte]"
  have h: "2 < length ?d" "decode_varint ?d 2 0 0 = Inr (0x1a, 3)" "wireType_of 0x1a = 2"
    "read_length ?d 3 = Inr (4, 6)" "fieldNum_of 0x1a = 3"
    "CommonExtensionConfig_TapDSConfig_Unmarshal opaque_codec CommonExtensionConfig_TapDSConfig_new
       (slice ?d 4 6) = Inr CommonExtensionConfig_TapDSConfig_new"
    "unknown_fields [1, 2, 3] ?d 6"
    by code_simp+
  note c = C4_last_oneof_field_wins [OF h(1,2,3,4),
      where cs = opaque_codec and tc = opaque_codec and t = CommonExtensionConfig_TapDSConfig_new
        and m = "\<lparr>ConfigType = Some (CommonExtensionConfig_AdminConfig (Some AdminConfig_new)),
                  XXX_unrecognized = []\<rparr>",
      THEN conjunct2, THEN conjunct2, THEN mp, OF conjI [OF h(5) h(6)],
      THEN conjunct2, THEN mp, OF h(7)]
  from h c show ?thesis by simp
qed

section \<open>Overlong varints and bad lengths\<close>

text \<open>
  Claim C7, as the spec states it, fails for the skip routine: a length prefix that carries
  the field past the end of the buffer is no error in \<^verbatim>\<open>skipCommon\<close>. At group depth
  0 it returns the offset behind the field, here 7 for a buffer of 2 bytes, and leaves the
  comparison with the length of the buffer to its caller.
\<close>

theorem C7_skipCommon_counterexample:
  "skipCommon [0x12, 0x05] = Inr 7 \<and> length [0x12, 0x05 :: byte] = 2
   \<and> wireType_of 0x12 = 2 \<and> decode_varint [0x12, 0x05] 1 0 0 = Inr (5, 2)"
  by code_simp

text \<open>
  Claim C7, amended. A varint with ten continuation bytes makes \<^verbatim>\<open>Unmarshal\<close> and
  \<^verbatim>\<open>skipCommon\<close> fail with the integer-overflow error, be it a tag (at \<open>j\<close>) or the
  length prefix (at \<open>i'\<close>) of a field with wire type 2 (its tag at \<open>i\<close>). A length
  prefix that is negative, or whose end index wraps around, makes both fail with the
  invalid-length error. A length prefix that carries the field past the end of the buffer
  makes \<^verbatim>\<open>Unmarshal\<close> fail with the truncated-input error. This holds at every place
  of the loops of the three messages and for every field number above 0, known to the
  schema (the length is read by \<^verbatim>\<open>Unmarshal\<close> itself) or not (it is read by
  \<^verbatim>\<open>skipCommon\<close>, whose error the default branch returns). For a field past the end
  \<^verbatim>\<open>skipCommon\<close> itself fails with the truncated-input error only inside a group; at
  depth 0 it returns the offset past the end, and the check of \<^verbatim>\<open>iNdEx + skippy\<close>
  in the default branch of \<^verbatim>\<open>Unmarshal\<close> gives the truncated-input error.
\<close>

theorem C7_overflow_and_bad_lengths:
  "(continuation_bytes d j 10 \<longrightarrow>
      AdminConfig_Unmarshal_loop a d j = Inl ErrIntOverflowCommon
      \<and> CommonExtensionConfig_TapDSConfig_Unmarshal_loop cs t d j = Inl ErrIntOverflowCommon
      \<and> CommonExtensionConfig_Unmarshal_loop tc cs' c d j = Inl ErrIntOverflowCommon
      \<and> skipCommon_loop d j depth = Inl ErrIntOverflowCommon)
   \<and> (i < length d \<and> decode_varint d i 0 0 = Inr (wire, i') \<and> wireType_of wire = 2 \<longrightarrow>
        (continuation_bytes d i' 10 \<longrightarrow>
           skipCommon_loop d i depth = Inl ErrIntOverflowCommon
           \<and> (0 < fieldNum_of wire \<longrightarrow>
                AdminConfig_Unmarshal_loop a d i = Inl ErrIntOverflowCommon
                \<and> CommonExtensionConfig_TapDSConfig_Unmarshal_loop cs t d i = Inl ErrIntOverflowCommon
                \<and> CommonExtensionConfig_Unmarshal_loop tc cs' c d i = Inl ErrIntOverflowCommon))
        \<and> (decode_varint d i' 0 0 = Inr (len, i'')
             \<and> (sint len < 0 \<or> 2 ^ 63 \<le> int i'' + sint len) \<longrightarrow>
           skipCommon_loop d i depth = Inl ErrInvalidLengthCommon
           \<and> (0 < fieldNum_of wire \<longrightarrow>
                AdminConfig_Unmarshal_loop a d i = Inl ErrInvalidLengthCommon
                \<and> CommonExtensionConfig_TapDSConfig_Unmarshal_loop cs t d i = Inl ErrInvalidLengthCommon
                \<and> CommonExtensionConfig_Unmarshal_loop tc cs' c d i = Inl ErrInvalidLengthCommon))
        \<and> (decode_varint d i' 0 0 = Inr (len, i'')
             \<and> 0 \<le> sint len \<and> int i'' + sint len < 2 ^ 63 \<and> length d < i'' + nat (sint len) \<longrightarrow>
           skipCommon_loop d i 0 = Inr (i'' + nat (sint len))
           \<and> skipCommon_loop d i (Suc depth) = Inl ErrUnexpectedEOF
           \<and> (0 < fieldNum_of wire \<longrightarrow>
                AdminConfig_Unmarshal_loop a d i = Inl ErrUnexpectedEOF
                \<and> CommonExtensionConfig_TapDSConfig_Unmarshal_loop cs t d i = Inl ErrUnexpectedEOF
                \<and> CommonExtensionConfig_Unmarshal_loop tc cs' c d i = Inl ErrUnexpectedEOF)))"
proof (intro conjI impI; (elim conjE)?)
  assume c: "continuation_bytes d j 10"
  then have lt: "j < length d" by (simp add: continuation_bytes_def)
  note dv = decode_varint_ten_continuation_bytes [OF c]
  from lt dv show "AdminConfig_Unmarshal_loop a d j = Inl ErrIntOverflowCommon"
    by (subst AdminConfig_Unmarshal_loop.simps) simp
  from lt dv show "CommonExtensionConfig_TapDSConfig_Unmarshal_loop cs t d j = Inl ErrIntOverflowCommon"
    by (subst CommonExtensionConfig_TapDSConfig_Unmarshal_loop.simps) simp
  from lt dv show "CommonExtensionConfig_Unmarshal_loop tc cs' c d j = Inl ErrIntOverflowCommon"
    by (subst CommonExtensionConfig_Unmarshal_loop.simps) simp
  from lt dv show "skipCommon_loop d j depth = Inl ErrIntOverflowCommon"
    by (subst skipCommon_loop.simps) simp
next
  assume f: "i < length d" "decode_varint d i 0 0 = Inr (wire, i')" "wireType_of wire = 2"
    and c: "continuation_bytes d i' 10"
  show "skipCommon_loop d i depth = Inl ErrIntOverflowCommon"
    by (simp add: skipCommon_loop_tag [OF f(1,2)] f(3) skip_step_2
        decode_varint_ten_continuation_bytes [OF c])
  assume n: "0 < fieldNum_of wire"
  note e = field_length_error [OF f n read_length_overflow [OF c] skip_unknown_length_prefix(1) [OF f c]]
  show "AdminConfig_Unmarshal_loop a d i = Inl ErrIntOverflowCommon"
    "CommonExtensionConfig_TapDSConfig_Unmarshal_loop cs t d i = Inl ErrIntOverflowCommon"
    "CommonExtensionConfig_Unmarshal_loop tc cs' c d i = Inl ErrIntOverflowCommon"
    by (rule e)+
next
  assume f: "i < length d" "decode_varint d i 0 0 = Inr (wire, i')" "wireType_of wire = 2"
    and dv: "decode_varint d i' 0 0 = Inr (len, i'')"
    and bad: "sint len < 0 \<or> 2 ^ 63 \<le> int i'' + sint len"
  from bad show "skipCommon_loop d i depth = Inl ErrInvalidLengthCommon"
    by (auto simp: skipCommon_loop_tag [OF f(1,2)] f(3) skip_step_2 dv add_length_def)
  assume n: "0 < fieldNum_of wire"
  from dv bad have rl: "read_length d i' = Inl ErrInvalidLengthCommon"
    by (auto simp: read_length_def add_length_def)
  note e = field_length_error [OF f n rl skip_unknown_length_prefix(2) [OF f dv bad]]
  show "AdminConfig_Unmarshal_loop a d i = Inl ErrInvalidLengthCommon"
    "CommonExtensionConfig_TapDSConfig_Unmarshal_loop cs t d i = Inl ErrInvalidLengthCommon"
    "CommonExtensionConfig_Unmarshal_loop tc cs' c d i = Inl ErrInvalidLengthCommon"
    by (rule e)+
next
  assume f: "i < length d" "decode_varint d i 0 0 = Inr (wire, i')" "wireType_of wire = 2"
    and dv: "decode_varint d i' 0 0 = Inr (len, i'')"
    and ok: "0 \<le> sint len" "int i'' + sint len < 2 ^ 63" and past: "length d < i'' + nat (sint len)"
  from ok have al: "add_length i'' len = Inr (i'' + nat (sint len))"
    by (simp add: add_length_def)
  show "skipCommon_loop d i 0 = Inr (i'' + nat (sint len))"
    by (simp add: skipCommon_loop_tag [OF f(1,2)] f(3) skip_step_2 dv al)
  from past show "skipCommon_loop d i (Suc depth) = Inl ErrUnexpectedEOF"
    by (simp add: skipCommon_loop_tag [OF f(1,2)] f(3) skip_step_2 dv al skipCommon_loop_end)
  assume n: "0 < fieldNum_of wire"
  note e = field_length_error [OF f n read_length_past_end [OF dv ok past]
      skip_unknown_length_prefix(3) [OF f dv ok past]]
  show "AdminConfig_Unmarshal_loop a d i = Inl ErrUnexpectedEOF"
    "CommonExtensionConfig_TapDSConfig_Unmarshal_loop cs t d i = Inl ErrUnexpectedEOF"
    "CommonExtensionConfig_Unmarshal_loop tc cs' c d i = Inl ErrUnexpectedEOF"
    by (rule e)+
qed

text \<open>
  The theorem of C7 at three buffers with the tag of the unknown field 4, at three with
  the tag of field 1, and at a field 4 behind another field whose end index wraps around.
\<close>

theorem C7_overflow_and_bad_lengths_witness:
  "(continuation_bytes example_unknown_long_varint 1 10
      \<and> 0 < length example_unknown_long_varint
      \<and> decode_varint example_unknown_long_varint 0 0 0 = Inr (0x22, 1)
      \<and> wireType_of 0x22 = 2 \<and> 0 < fieldNum_of 0x22
      \<and> 0 < length example_unknown_negative_length
      \<and> decode_varint example_unknown_negative_length 0 0 0 = Inr (0x22, 1)
      \<and> decode_varint example_unknown_negative_length 1 0 0 = Inr (- 1, 11) \<and> sint (- 1 :: 64 word) < 0
      \<and> 0 < length [0x22, 0x05 :: byte] \<and> decode_varint [0x22, 0x05] 0 0 0 = Inr (0x22, 1)
      \<and> decode_varint [0x22, 0x05] 1 0 0 = Inr (5, 2) \<and> 0 \<le> sint (5 :: 64 word)
      \<and> int 2 + sint (5 :: 64 word) < 2 ^ 63 \<and> length [0x22, 0x05 :: byte] < 2 + nat (sint (5 :: 64 word))
      \<and> 0 < length [0x0a, 0x05 :: byte] \<and> decode_varint [0x0a, 0x05] 0 0 0 = Inr (0x0a, 1)
      \<and> decode_varint [0x0a, 0x05] 1 0 0 = Inr (5, 2) \<and> wireType_of 0x0a = 2 \<and> 0 < fieldNum_of 0x0a
      \<and> continuation_bytes example_long_varint 1 10 \<and> 0 < length example_long_varint
      \<and> decode_varint example_long_varint 0 0 0 = Inr (0x0a, 1)
      \<and> 0 < length example_negative_length
      \<and> decode_varint example_negative_length 0 0 0 = Inr (0x0a, 1)
      \<and> decode_varint example_negative_length 1 0 0 = Inr (- 1, 11)
      \<and> 3 < length example_unknown_wrapping_length
      \<and> decode_varint example_unknown_wrapping_length 3 0 0 = Inr (0x22, 4)
      \<and> decode_varint example_unknown_wrapping_length 4 0 0 = Inr (0x7FFFFFFFFFFFFFF5, 13)
      \<and> 2 ^ 63 \<le> int 13 + sint (0x7FFFFFFFFFFFFFF5 :: 64 word))
   \<and> AdminConfig_Unmarshal_loop AdminConfig_new example_unknown_long_varint 1 = Inl ErrIntOverflowCommon
   \<and> skipCommon_loop example_unknown_long_varint 1 0 = Inl ErrIntOverflowCommon
   \<and> AdminConfig_Unmarshal_loop AdminConfig_new example_unknown_long_varint 0 = Inl ErrIntOverflowCommon
   \<and> CommonExtensionConfig_TapDSConfig_Unmarshal_loop opaque_codec CommonExtensionConfig_TapDSConfig_new
        example_unknown_long_varint 0 = Inl ErrIntOverflowCommon
   \<and> CommonExtensionConfig_Unmarshal_loop opaque_codec opaque_codec CommonExtensionConfig_new
        example_unknown_long_varint 0 = Inl ErrIntOverflowCommon
   \<and> skipCommon_loop example_unknown_long_varint 0 0 = Inl ErrIntOverflowCommon
   \<and> AdminConfig_Unmarshal_loop AdminConfig_new example_unknown_negative_length 0 = Inl ErrInvalidLengthCommon
   \<and> CommonExtensionConfig_TapDSConfig_Unmarshal_loop opaque_codec CommonExtensionConfig_TapDSConfig_new
        example_unknown_negative_length 0 = Inl ErrInvalidLengthCommon
   \<and> CommonExtensionConfig_Unmarshal_loop opaque_codec opaque_codec CommonExtensionConfig_new
        example_unknown_negative_length 0 = Inl ErrInvalidLengthCommon
   \<and> skipCommon_loop example_unknown_negative_length 0 0 = Inl ErrInvalidLengthCommon
   \<and> AdminConfig_Unmarshal_loop AdminConfig_new [0x22, 0x05] 0 = Inl ErrUnexpectedEOF
   \<and> CommonExtensionConfig_TapDSConfig_Unmarshal_loop opaque_codec CommonExtensionConfig_TapDSConfig_new
        [0x22, 0x05] 0 = Inl ErrUnexpectedEOF
   \<and> CommonExtensionConfig_Unmarshal_loop opaque_codec opaque_codec CommonExtensionConfig_new
        [0x22, 0x05] 0 = Inl ErrUnexpectedEOF
   \<and> skipCommon_loop [0x22, 0x05] 0 0 = Inr 7
   \<and> skipCommon_loop [0x22, 0x05] 0 (Suc 0) = Inl ErrUnexpectedEOF
   \<and> AdminConfig_Unmarshal_loop AdminConfig_new [0x0a, 0x05] 0 = Inl ErrUnexpectedEOF
   \<and> CommonExtensionConfig_Unmarshal_loop opaque_codec opaque_codec CommonExtensionConfig_new
        [0x0a, 0x05] 0 = Inl ErrUnexpectedEOF
   \<and> AdminConfig_Unmarshal_loop AdminConfig_new example_long_varint 0 = Inl ErrIntOverflowCommon
   \<and> CommonExtensionConfig_Unmarshal_loop opaque_codec opaque_codec CommonExtensionConfig_new
        example_long_varint 0 = Inl ErrIntOverflowCommon
   \<and> AdminConfig_Unmarshal_loop AdminConfig_new example_negative_length 0 = Inl ErrInvalidLengthCommon
   \<and> CommonExtensionConfig_Unmarshal_loop opaque_codec opaque_codec CommonExtensionConfig_new
        example_negative_length 0 = Inl ErrInvalidLengthCommon
   \<and> AdminConfig_Unmarshal_loop AdminConfig_new example_unknown_wrapping_length 3
       = Inl ErrInvalidLengthCommon
   \<and> CommonExtensionConfig_Unmarshal_loop opaque_codec opaque_codec CommonExtensionConfig_new
        example_unknown_wrapping_length 3 = Inl ErrInvalidLengthCommon"
proof -
  note f = example_C7_unknown_facts
  note g = example_C7_facts
  have s: "sint (- 1 :: 64 word) < 0" "0 \<le> sint (5 :: 64 word)" "int 2 + sint (5 :: 64 word) < 2 ^ 63"
    "length [0x22, 0x05 :: byte] < 2 + nat (sint (5 :: 64 word))"
    "length [0x0a, 0x05 :: byte] < 2 + nat (sint (5 :: 64 word))"
    by simp_all
  have n: "0 < fieldNum_of 0x22" "0 < fieldNum_of 0x0a" by (simp_all add: f(11) g(11))
  note w1 = C7_overflow_and_bad_lengths [where d = example_unknown_long_varint and j = 1 and i = 0
      and wire = "0x22" and i' = 1 and a = AdminConfig_new and depth = 0
      and cs = opaque_codec and tc = opaque_codec and cs' = opaque_codec
      and t = CommonExtensionConfig_TapDSConfig_new and c = CommonExtensionConfig_new
      and len = 0 and i'' = 0]
  note w2 = C7_overflow_and_bad_lengths [where d = example_unknown_negative_length and j = 0 and i = 0
      and wire = "0x22" and i' = 1 and a = AdminConfig_new and depth = 0
      and cs = opaque_codec and tc = opaque_codec and cs' = opaque_codec
      and t = CommonExtensionConfig_TapDSConfig_new and c = CommonExtensionConfig_new
      and len = "- 1" and i'' = 11]
  note w3 = C7_overflow_and_bad_lengths [where d = "[0x22, 0x05]" and j = 0 and i = 0
      and wire = "0x22" and i' = 1 and a = AdminConfig_new and depth = 0
      and cs = opaque_codec and tc = opaque_codec and cs' = opaque_codec
      and t = CommonExtensionConfig_TapDSConfig_new and c = CommonExtensionConfig_new
      and len = 5 and i'' = 2]
  note w4 = C7_overflow_and_bad_lengths [where d = "[0x0a, 0x05]" and j = 0 and i = 0
      and wire = "0x0a" and i' = 1 and a = AdminConfig_new and depth = 0
      and cs = opaque_codec and tc = opaque_codec and cs' = opaque_codec
      and t = CommonExtensionConfig_TapDSConfig_new and c = CommonExtensionConfig_new
      and len = 5 and i'' = 2]
  note w5 = C7_overflow_and_bad_lengths [where d = example_long_varint and j = 1 and i = 0
      and wire = "0x0a" and i' = 1 and a = AdminConfig_new and depth = 0
      and cs = opaque_codec and tc = opaque_codec and cs' = opaque_codec
      and t = CommonExtensionConfig_TapDSConfig_new and c = CommonExtensionConfig_new
      and len = 0 and i'' = 0]
  note w6 = C7_overflow_and_bad_lengths [where d = example_negative_length and j = 0 and i = 0
      and wire = "0x0a" and i' = 1 and a = AdminConfig_new and depth = 0
      and cs = opaque_codec and tc = opaque_codec and cs' = opaque_codec
      and t = CommonExtensionConfig_TapDSConfig_new and c = CommonExtensionConfig_new
      and len = "- 1" and i'' = 11]
  from w5 g(1,2,3,10) n(2) have k1:
    "AdminConfig_Unmarshal_loop AdminConfig_new example_long_varint 0 = Inl ErrIntOverflowCommon"
    "CommonExtensionConfig_Unmarshal_loop opaque_codec opaque_codec CommonExtensionConfig_new
        example_long_varint 0 = Inl ErrIntOverflowCommon"
    by simp_all
  from w6 g(4,5,6,10) n(2) s(1) have k2:
    "AdminConfig_Unmarshal_loop AdminConfig_new example_negative_length 0 = Inl ErrInvalidLengthCommon"
    "CommonExtensionConfig_Unmarshal_loop opaque_codec opaque_codec CommonExtensionConfig_new
        example_negative_length 0 = Inl ErrInvalidLengthCommon"
    by simp_all
  from w1 f(1,2,3,10) n(1) have a:
    "AdminConfig_Unmarshal_loop AdminConfig_new example_unknown_long_varint 1 = Inl ErrIntOverflowCommon"
    "skipCommon_loop example_unknown_long_varint 1 0 = Inl ErrIntOverflowCommon"
    "AdminConfig_Unmarshal_loop AdminConfig_new example_unknown_long_varint 0 = Inl ErrIntOverflowCommon"
    "CommonExtensionConfig_TapDSConfig_Unmarshal_loop opaque_codec CommonExtensionConfig_TapDSConfig_new
        example_unknown_long_varint 0 = Inl ErrIntOverflowCommon"
    "CommonExtensionConfig_Unmarshal_loop opaque_codec opaque_codec CommonExtensionConfig_new
        example_unknown_long_varint 0 = Inl ErrIntOverflowCommon"
    "skipCommon_loop example_unknown_long_varint 0 0 = Inl ErrIntOverflowCommon"
    by simp_all
  from w2 f(4,5,6,10) n(1) s(1) have b:
    "AdminConfig_Unmarshal_loop AdminConfig_new example_unknown_negative_length 0 = Inl ErrInvalidLengthCommon"
    "CommonExtensionConfig_TapDSConfig_Unmarshal_loop opaque_codec CommonExtensionConfig_TapDSConfig_new
        example_unknown_negative_length 0 = Inl ErrInvalidLengthCommon"
    "CommonExtensionConfig_Unmarshal_loop opaque_codec opaque_codec CommonExtensionConfig_new
        example_unknown_negative_length 0 = Inl ErrInvalidLengthCommon"
    "skipCommon_loop example_unknown_negative_length 0 0 = Inl ErrInvalidLengthCommon"
    by simp_all
  from w3 f(7,8,9,10) n(1) have c:
    "AdminConfig_Unmarshal_loop AdminConfig_new [0x22, 0x05] 0 = Inl ErrUnexpectedEOF"
    "CommonExtensionConfig_TapDSConfig_Unmarshal_loop opaque_codec CommonExtensionConfig_TapDSConfig_new
        [0x22, 0x05] 0 = Inl ErrUnexpectedEOF"
    "CommonExtensionConfig_Unmarshal_loop opaque_codec opaque_codec CommonExtensionConfig_new
        [0x22, 0x05] 0 = Inl ErrUnexpectedEOF"
    "skipCommon_loop [0x22, 0x05] 0 0 = Inr 7"
    "skipCommon_loop [0x22, 0x05] 0 (Suc 0) = Inl ErrUnexpectedEOF"
    by simp_all
  from w4 g(7,8,9,10) n(2) have d:
    "AdminConfig_Unmarshal_loop AdminConfig_new [0x0a, 0x05] 0 = Inl ErrUnexpectedEOF"
    "CommonExtensionConfig_Unmarshal_loop opaque_codec opaque_codec CommonExtensionConfig_new
        [0x0a, 0x05] 0 = Inl ErrUnexpectedEOF"
    by simp_all
  note h = example_C7_wrapping_facts
  have hw: "2 ^ 63 \<le> int 13 + sint (0x7FFFFFFFFFFFFFF5 :: 64 word)" by simp
  note w7 = C7_overflow_and_bad_lengths [where d = example_unknown_wrapping_length and j = 0 and i = 3
      and wire = "0x22" and i' = 4 and a = AdminConfig_new and depth = 0
      and cs = opaque_codec and tc = opaque_codec and cs' = opaque_codec
      and t = CommonExtensionConfig_TapDSConfig_new and c = CommonExtensionConfig_new
      and len = "0x7FFFFFFFFFFFFFF5" and i'' = 13]
  from w7 h f(10) n(1) hw have k3:
    "AdminConfig_Unmarshal_loop AdminConfig_new example_unknown_wrapping_length 3
       = Inl ErrInvalidLengthCommon"
    "CommonExtensionConfig_Unmarshal_loop opaque_codec opaque_codec CommonExtensionConfig_new
        example_unknown_wrapping_length 3 = Inl ErrInvalidLengthCommon"
    by simp_all
  from f g n s a b c d k1 k2 h hw k3 show ?thesis by simp
qed

section \<open>Truncated buffers\<close>

text \<open>
  Claim C5, as the spec states it, fails: the wire format has no length of the whole
  message, so a prefix that ends where a field ends is itself an encoding. The encoding of
  \<^verbatim>\<open>AdminConfig{ConfigId: "a"}\<close> with the unrecognized bytes 0x10 0x01 has five bytes;
  its first three bytes decode without error to a message without the unrecognized field,
  and the empty prefix decodes to the empty message.
\<close>

theorem C5_prefix_counterexample:
  "AdminConfig_Marshal \<lparr>ConfigId = bytes_of ''a'', AdminConfig_XXX_unrecognized = [0x10, 0x01]\<rparr>
     = Inr [0x0a, 0x01, 0x61, 0x10, 0x01]
   \<and> AdminConfig_Unmarshal AdminConfig_new [0x0a, 0x01, 0x61, 0x10, 0x01]
     = Inr \<lparr>ConfigId = bytes_of ''a'', AdminConfig_XXX_unrecognized = [0x10, 0x01]\<rparr>
   \<and> take 3 [0x0a, 0x01, 0x61, 0x10, 0x01 :: byte] = [0x0a, 0x01, 0x61]
   \<and> AdminConfig_Unmarshal AdminConfig_new [0x0a, 0x01, 0x61]
     = Inr \<lparr>ConfigId = bytes_of ''a'', AdminConfig_XXX_unrecognized = []\<rparr>
   \<and> AdminConfig_Unmarshal AdminConfig_new [] = Inr AdminConfig_new"
  by code_simp

text \<open>
  Claim C5, amended. \<^verbatim>\<open>Unmarshal\<close> of a prefix of a buffer that \<^verbatim>\<open>Unmarshal\<close>
  accepts fails with the truncated-input error and with no other, unless the prefix ends
  where a top-level field of the buffer ends (the empty prefix included). There it returns
  the message of the fields before the cut: the state \<open>m''\<close> from which the decoding
  loop, run on the whole buffer from index \<open>n\<close> on, gives the full result.
\<close>

theorem C5_prefix_of_an_accepted_buffer:
  "(AdminConfig_Unmarshal a b = Inr a' \<and> n \<le> length b \<longrightarrow>
      AdminConfig_Unmarshal a (take n b) = Inl ErrUnexpectedEOF
      \<or> (\<exists>a''. AdminConfig_Unmarshal a (take n b) = Inr a''
             \<and> AdminConfig_Unmarshal_loop a'' b n = Inr a'))
   \<and> (CommonExtensionConfig_TapDSConfig_Unmarshal cs t b = Inr t' \<and> n \<le> length b \<longrightarrow>
      CommonExtensionConfig_TapDSConfig_Unmarshal cs t (take n b) = Inl ErrUnexpectedEOF
      \<or> (\<exists>t''. CommonExtensionConfig_TapDSConfig_Unmarshal cs t (take n b) = Inr t''
             \<and> CommonExtensionConfig_TapDSConfig_Unmarshal_loop cs t'' b n = Inr t'))
   \<and> (CommonExtensionConfig_Unmarshal tc cs' c b = Inr c' \<and> n \<le> length b \<longrightarrow>
      CommonExtensionConfig_Unmarshal tc cs' c (take n b) = Inl ErrUnexpectedEOF
      \<or> (\<exists>c''. CommonExtensionConfig_Unmarshal tc cs' c (take n b) = Inr c''
             \<and> CommonExtensionConfig_Unmarshal_loop tc cs' c'' b n = Inr c'))"
  unfolding AdminConfig_Unmarshal_def CommonExtensionConfig_TapDSConfig_Unmarshal_def
    CommonExtensionConfig_Unmarshal_def
  using AdminConfig_Unmarshal_loop_take [of a b 0 a' n]
    TapDSConfig_Unmarshal_loop_take [of cs t b 0 t' n]
    CommonExtensionConfig_Unmarshal_loop_take [of tc cs' c b 0 c' n]
  by simp

text \<open>
  The theorem of C5 at a cut inside a string, at a cut between two fields and at a cut
  inside a group of a nested message.
\<close>

theorem C5_prefix_of_an_accepted_buffer_witness:
  "(AdminConfig_Unmarshal AdminConfig_new example_AdminConfig_bytes = Inr example_AdminConfig
      \<and> 5 \<le> length example_AdminConfig_bytes
      \<and> CommonExtensionConfig_TapDSConfig_Unmarshal opaque_codec CommonExtensionConfig_TapDSConfig_new
           example_TapDSConfig_bytes = Inr example_TapDSConfig
      \<and> 10 \<le> length example_TapDSConfig_bytes
      \<and> CommonExtensionConfig_Unmarshal opaque_codec opaque_codec CommonExtensionConfig_new
           example_CommonExtensionConfig_bytes = Inr example_CommonExtensionConfig
      \<and> 16 \<le> length example_CommonExtensionConfig_bytes)
   \<and> AdminConfig_Unmarshal AdminConfig_new (take 5 example_AdminConfig_bytes) = Inl ErrUnexpectedEOF
   \<and> CommonExtensionConfig_TapDSConfig_Unmarshal_loop opaque_codec
         \<lparr>ConfigSource = Some [1, 2, 3], Name = bytes_of ''tap'', TapDSConfig_XXX_unrecognized = []\<rparr>
         example_TapDSConfig_bytes 10 = Inr example_TapDSConfig
   \<and> CommonExtensionConfig_Unmarshal opaque_codec opaque_codec CommonExtensionConfig_new
         (take 16 example_CommonExtensionConfig_bytes) = Inl ErrUnexpectedEOF"
proof -
  note f = example_bytes_facts and p = example_prefix_facts
  note t = C5_prefix_of_an_accepted_buffer [where cs = opaque_codec and tc = opaque_codec
      and cs' = opaque_codec and t = CommonExtensionConfig_TapDSConfig_new
      and b = example_TapDSConfig_bytes and n = 10 and t' = example_TapDSConfig,
      THEN conjunct2, THEN conjunct1, THEN mp, OF conjI [OF f(3,4)]]
  from t p(2) have "CommonExtensionConfig_TapDSConfig_Unmarshal_loop opaque_codec
         \<lparr>ConfigSource = Some [1, 2, 3], Name = bytes_of ''tap'', TapDSConfig_XXX_unrecognized = []\<rparr>
         example_TapDSConfig_bytes 10 = Inr example_TapDSConfig"
    by simp
  with f p show ?thesis by simp
qed

section \<open>Unknown fields\<close>

text \<open>
  Claim C3. A field with a number that the schema does not know is not refused, whatever its
  wire type: \<^verbatim>\<open>skipCommon\<close> run at the field returns its length in bytes, and at any
  place of its loop \<^verbatim>\<open>Unmarshal\<close> of each of the three messages appends the bytes
  of the field, tag included, to the unrecognized bytes of the message, changes nothing else
  and goes on behind the field. So the bytes of a run of such fields are appended in the
  order met. \<^verbatim>\<open>Marshal\<close> writes the unrecognized bytes as they are after the known
  fields, and a buffer of unknown fields is decoded and encoded again to the same bytes. The
  fields are the well-formed fields of the wire format (\<open>wire_field_ok\<close>) in a buffer
  shorter than \<open>2 ^ 63\<close> bytes, as every Go slice is. \<^verbatim>\<open>Marshal\<close> is taken at a
  \<^verbatim>\<open>CommonExtensionConfig\<close> whose oneof is not the nil pointer of a wrapper type;
  \<^verbatim>\<open>Unmarshal\<close> never builds one, so for every buffer that it decodes into an empty
  message \<^verbatim>\<open>Marshal\<close> writes the unrecognized bytes of the result as they are, after
  the known fields. The encoders of the other packages keep their contract.
\<close>

theorem C3_unknown_fields_are_kept:
  "(wire_field_ok f \<and> length (wire_field_bytes f @ post) < 2 ^ 63 \<longrightarrow>
      skipCommon (wire_field_bytes f @ post) = Inr (length (wire_field_bytes f)))
   \<and> (unknown_field [1] f \<and> length (pre @ wire_field_bytes f @ post) < 2 ^ 63 \<longrightarrow>
      AdminConfig_Unmarshal_loop a (pre @ wire_field_bytes f @ post) (length pre)
        = AdminConfig_Unmarshal_loop
            (a\<lparr>AdminConfig_XXX_unrecognized := AdminConfig_XXX_unrecognized a @ wire_field_bytes f\<rparr>)
            (pre @ wire_field_bytes f @ post) (length pre + length (wire_field_bytes f)))
   \<and> (unknown_field [1, 2] f \<and> length (pre @ wire_field_bytes f @ post) < 2 ^ 63 \<longrightarrow>
      CommonExtensionConfig_TapDSConfig_Unmarshal_loop cs t (pre @ wire_field_bytes f @ post) (length pre)
        = CommonExtensionConfig_TapDSConfig_Unmarshal_loop cs
            (t\<lparr>TapDSConfig_XXX_unrecognized := TapDSConfig_XXX_unrecognized t @ wire_field_bytes f\<rparr>)
            (pre @ wire_field_bytes f @ post) (length pre + length (wire_field_bytes f)))
   \<and> (unknown_field [1, 2, 3] f \<and> length (pre @ wire_field_bytes f @ post) < 2 ^ 63 \<longrightarrow>
      CommonExtensionConfig_Unmarshal_loop tc cs' c (pre @ wire_field_bytes f @ post) (length pre)
        = CommonExtensionConfig_Unmarshal_loop tc cs'
            (c\<lparr>XXX_unrecognized := XXX_unrecognized c @ wire_field_bytes f\<rparr>)
            (pre @ wire_field_bytes f @ post) (length pre + length (wire_field_bytes f)))
   \<and> (list_all (unknown_field [1]) fs \<and> length (wire_fields_bytes fs) < 2 ^ 63 \<longrightarrow>
      AdminConfig_Unmarshal a (wire_fields_bytes fs)
        = Inr (a\<lparr>AdminConfig_XXX_unrecognized := AdminConfig_XXX_unrecognized a @ wire_fields_bytes fs\<rparr>))
   \<and> (list_all (unknown_field [1, 2]) fs \<and> length (wire_fields_bytes fs) < 2 ^ 63 \<longrightarrow>
      CommonExtensionConfig_TapDSConfig_Unmarshal cs t (wire_fields_bytes fs)
        = Inr (t\<lparr>TapDSConfig_XXX_unrecognized := TapDSConfig_XXX_unrecognized t @ wire_fields_bytes fs\<rparr>))
   \<and> (list_all (unknown_field [1, 2, 3]) fs \<and> length (wire_fields_bytes fs) < 2 ^ 63 \<longrightarrow>
      CommonExtensionConfig_Unmarshal tc cs' c (wire_fields_bytes fs)
        = Inr (c\<lparr>XXX_unrecognized := XXX_unrecognized c @ wire_fields_bytes fs\<rparr>))
   \<and> (\<exists>bs. AdminConfig_Marshal (a\<lparr>AdminConfig_XXX_unrecognized := []\<rparr>) = Inr bs
         \<and> AdminConfig_Marshal a = Inr (bs @ AdminConfig_XXX_unrecognized a))
   \<and> (TapDSConfig_ext_ok cs t \<longrightarrow>
        (\<exists>bs. CommonExtensionConfig_TapDSConfig_Marshal cs (t\<lparr>TapDSConfig_XXX_unrecognized := []\<rparr>) = Inr bs
           \<and> CommonExtensionConfig_TapDSConfig_Marshal cs t = Inr (bs @ TapDSConfig_XXX_unrecognized t)))
   \<and> (CommonExtensionConfig_ext_ok tc cs' c \<and> \<not> CommonExtensionConfig_nil_wrapper c \<longrightarrow>
        (\<exists>bs. CommonExtensionConfig_Marshal tc cs' (c\<lparr>XXX_unrecognized := []\<rparr>) = Inr bs
           \<and> CommonExtensionConfig_Marshal tc cs' c = Inr (bs @ XXX_unrecognized c)))
   \<and> (\<not> CommonExtensionConfig_nil_wrapper c
        \<and> CommonExtensionConfig_Unmarshal tc cs' c d = Inr c' \<longrightarrow>
        \<not> CommonExtensionConfig_nil_wrapper c')
   \<and> (CommonExtensionConfig_Unmarshal tc cs' CommonExtensionConfig_new d = Inr c''
        \<and> CommonExtensionConfig_ext_ok tc cs' c'' \<longrightarrow>
        (\<exists>bs. CommonExtensionConfig_Marshal tc cs' (c''\<lparr>XXX_unrecognized := []\<rparr>) = Inr bs
           \<and> CommonExtensionConfig_Marshal tc cs' c'' = Inr (bs @ XXX_unrecognized c'')))
   \<and> (list_all (unknown_field [1]) fs \<and> length (wire_fields_bytes fs) < 2 ^ 63 \<longrightarrow>
        (\<exists>m. AdminConfig_Unmarshal AdminConfig_new (wire_fields_bytes fs) = Inr m
           \<and> AdminConfig_Marshal m = Inr (wire_fields_bytes fs)))
   \<and> (list_all (unknown_field [1, 2]) fs \<and> length (wire_fields_bytes fs) < 2 ^ 63 \<longrightarrow>
        (\<exists>m. CommonExtensionConfig_TapDSConfig_Unmarshal cs CommonExtensionConfig_TapDSConfig_new
                (wire_fields_bytes fs) = Inr m
           \<and> CommonExtensionConfig_TapDSConfig_Marshal cs m = Inr (wire_fields_bytes fs)))
   \<and> (list_all (unknown_field [1, 2, 3]) fs \<and> length (wire_fields_bytes fs) < 2 ^ 63 \<longrightarrow>
        (\<exists>m. CommonExtensionConfig_Unmarshal tc cs' CommonExtensionConfig_new (wire_fields_bytes fs) = Inr m
           \<and> CommonExtensionConfig_Marshal tc cs' m = Inr (wire_fields_bytes fs)))"
proof (intro conjI impI; (elim conjE)?)
  show "\<exists>bs. AdminConfig_Marshal (a\<lparr>AdminConfig_XXX_unrecognized := []\<rparr>) = Inr bs
         \<and> AdminConfig_Marshal a = Inr (bs @ AdminConfig_XXX_unrecognized a)"
    by (simp add: AdminConfig_Marshal_eq AdminConfig_encoding_def)
next
  assume ok: "TapDSConfig_ext_ok cs t"
  then have ok': "TapDSConfig_ext_ok cs (t\<lparr>TapDSConfig_XXX_unrecognized := []\<rparr>)"
    by (simp add: TapDSConfig_ext_ok_def)
  show "\<exists>bs. CommonExtensionConfig_TapDSConfig_Marshal cs (t\<lparr>TapDSConfig_XXX_unrecognized := []\<rparr>) = Inr bs
           \<and> CommonExtensionConfig_TapDSConfig_Marshal cs t = Inr (bs @ TapDSConfig_XXX_unrecognized t)"
    by (simp add: TapDSConfig_Marshal_eq [OF ok] TapDSConfig_Marshal_eq [OF ok']
        CommonExtensionConfig_TapDSConfig_encoding_def)
next
  assume ok: "CommonExtensionConfig_ext_ok tc cs' c" and nn: "\<not> CommonExtensionConfig_nil_wrapper c"
  then have ok': "CommonExtensionConfig_ext_ok tc cs' (c\<lparr>XXX_unrecognized := []\<rparr>)"
    and nn': "\<not> CommonExtensionConfig_nil_wrapper (c\<lparr>XXX_unrecognized := []\<rparr>)"
    by (simp_all add: CommonExtensionConfig_ext_ok_def CommonExtensionConfig_nil_wrapper_def)
  show "\<exists>bs. CommonExtensionConfig_Marshal tc cs' (c\<lparr>XXX_unrecognized := []\<rparr>) = Inr bs
           \<and> CommonExtensionConfig_Marshal tc cs' c = Inr (bs @ XXX_unrecognized c)"
    by (simp add: CommonExtensionConfig_Marshal_eq [OF ok nn] CommonExtensionConfig_Marshal_eq [OF ok' nn']
        CommonExtensionConfig_encoding_def)
next
  assume "\<not> CommonExtensionConfig_nil_wrapper c" "CommonExtensionConfig_Unmarshal tc cs' c d = Inr c'"
  then show "\<not> CommonExtensionConfig_nil_wrapper c'"
    unfolding CommonExtensionConfig_Unmarshal_def
    by (rule CommonExtensionConfig_Unmarshal_loop_nil_wrapper [rotated])
next
  assume u: "CommonExtensionConfig_Unmarshal tc cs' CommonExtensionConfig_new d = Inr c''"
    and ok: "CommonExtensionConfig_ext_ok tc cs' c''"
  from u have nn: "\<not> CommonExtensionConfig_nil_wrapper c''"
    unfolding CommonExtensionConfig_Unmarshal_def
    by (rule CommonExtensionConfig_Unmarshal_loop_nil_wrapper) (rule nil_wrapper_simps(5))
  from ok nn have ok': "CommonExtensionConfig_ext_ok tc cs' (c''\<lparr>XXX_unrecognized := []\<rparr>)"
    and nn': "\<not> CommonExtensionConfig_nil_wrapper (c''\<lparr>XXX_unrecognized := []\<rparr>)"
    by (simp_all add: CommonExtensionConfig_ext_ok_def CommonExtensionConfig_nil_wrapper_def)
  show "\<exists>bs. CommonExtensionConfig_Marshal tc cs' (c''\<lparr>XXX_unrecognized := []\<rparr>) = Inr bs
           \<and> CommonExtensionConfig_Marshal tc cs' c'' = Inr (bs @ XXX_unrecognized c'')"
    by (simp add: CommonExtensionConfig_Marshal_eq [OF ok nn] CommonExtensionConfig_Marshal_eq [OF ok' nn']
        CommonExtensionConfig_encoding_def)
next
  assume "list_all (unknown_field [1]) fs" "length (wire_fields_bytes fs) < 2 ^ 63"
  then show "\<exists>m. AdminConfig_Unmarshal AdminConfig_new (wire_fields_bytes fs) = Inr m
           \<and> AdminConfig_Marshal m = Inr (wire_fields_bytes fs)"
    by (simp add: AdminConfig_Unmarshal_wire_fields AdminConfig_Marshal_eq
        AdminConfig_encoding_def AdminConfig_new_def)
next
  assume "list_all (unknown_field [1, 2]) fs" "length (wire_fields_bytes fs) < 2 ^ 63"
  then show "\<exists>m. CommonExtensionConfig_TapDSConfig_Unmarshal cs CommonExtensionConfig_TapDSConfig_new
                (wire_fields_bytes fs) = Inr m
           \<and> CommonExtensionConfig_TapDSConfig_Marshal cs m = Inr (wire_fields_bytes fs)"
    by (simp add: TapDSConfig_Unmarshal_wire_fields TapDSConfig_Marshal_eq TapDSConfig_ext_ok_def
        CommonExtensionConfig_TapDSConfig_encoding_def CommonExtensionConfig_TapDSConfig_new_def)
next
  assume "list_all (unknown_field [1, 2, 3]) fs" "length (wire_fields_bytes fs) < 2 ^ 63"
  then show "\<exists>m. CommonExtensionConfig_Unmarshal tc cs' CommonExtensionConfig_new (wire_fields_bytes fs) = Inr m
           \<and> CommonExtensionConfig_Marshal tc cs' m = Inr (wire_fields_bytes fs)"
    by (simp add: CommonExtensionConfig_Unmarshal_wire_fields CommonExtensionConfig_Marshal_eq
        CommonExtensionConfig_ext_ok_def CommonExtensionConfig_nil_wrapper_def
        CommonExtensionConfig_encoding_def CommonExtensionConfig_new_def)
qed (simp_all add: skipCommon_field AdminConfig_Unmarshal_loop_wire_field
    TapDSConfig_Unmarshal_loop_wire_field CommonExtensionConfig_Unmarshal_loop_wire_field
    AdminConfig_Unmarshal_wire_fields TapDSConfig_Unmarshal_wire_fields
    CommonExtensionConfig_Unmarshal_wire_fields del: append_assoc length_append)

text \<open>
  The theorem of C3 at a field of eight bytes between two other fields, and at the five
  example fields decoded into the three example messages.
\<close>

theorem C3_unknown_fields_are_kept_witness:
  "(wire_field_ok (Fixed64_field [0x29] [1, 2, 3, 4, 5, 6, 7, 8])
      \<and> unknown_field [1] (Fixed64_field [0x29] [1, 2, 3, 4, 5, 6, 7, 8])
      \<and> unknown_field [1, 2] (Fixed64_field [0x29] [1, 2, 3, 4, 5, 6, 7, 8])
      \<and> unknown_field [1, 2, 3] (Fixed64_field [0x29] [1, 2, 3, 4, 5, 6, 7, 8])
      \<and> length ([0x0a, 0x01, 0x41] @ wire_field_bytes (Fixed64_field [0x29] [1, 2, 3, 4, 5, 6, 7, 8])
                  @ [0x4a, 0x01, 0x7a]) < 2 ^ 63
      \<and> list_all (unknown_field [1]) example_wire_fields
      \<and> list_all (unknown_field [1, 2]) example_wire_fields
      \<and> list_all (unknown_field [1, 2, 3]) example_wire_fields
      \<and> length (wire_fields_bytes example_wire_fields) < 2 ^ 63
      \<and> TapDSConfig_ext_ok opaque_codec example_TapDSConfig
      \<and> CommonExtensionConfig_ext_ok opaque_codec opaque_codec example_CommonExtensionConfig
      \<and> \<not> CommonExtensionConfig_nil_wrapper example_CommonExtensionConfig
      \<and> CommonExtensionConfig_Unmarshal opaque_codec opaque_codec CommonExtensionConfig_new
            example_wire_fields_bytes
          = Inr \<lparr>ConfigType = None, XXX_unrecognized = example_wire_fields_bytes\<rparr>
      \<and> CommonExtensionConfig_ext_ok opaque_codec opaque_codec
            \<lparr>ConfigType = None, XXX_unrecognized = example_wire_fields_bytes\<rparr>)
   \<and> wire_fields_bytes example_wire_fields = example_wire_fields_bytes
   \<and> skipCommon ([0x29, 1, 2, 3, 4, 5, 6, 7, 8] @ [0x4a, 0x01, 0x7a]) = Inr 9
   \<and> CommonExtensionConfig_Unmarshal_loop opaque_codec opaque_codec example_CommonExtensionConfig
        ([0x0a, 0x01, 0x41] @ [0x29, 1, 2, 3, 4, 5, 6, 7, 8] @ [0x4a, 0x01, 0x7a]) 3
       = CommonExtensionConfig_Unmarshal_loop opaque_codec opaque_codec
           (example_CommonExtensionConfig\<lparr>XXX_unrecognized :=
              XXX_unrecognized example_CommonExtensionConfig @ [0x29, 1, 2, 3, 4, 5, 6, 7, 8]\<rparr>)
           ([0x0a, 0x01, 0x41] @ [0x29, 1, 2, 3, 4, 5, 6, 7, 8] @ [0x4a, 0x01, 0x7a]) 12
   \<and> AdminConfig_Unmarshal example_AdminConfig example_wire_fields_bytes
       = Inr (example_AdminConfig\<lparr>AdminConfig_XXX_unrecognized :=
                AdminConfig_XXX_unrecognized example_AdminConfig @ example_wire_fields_bytes\<rparr>)
   \<and> CommonExtensionConfig_TapDSConfig_Unmarshal opaque_codec example_TapDSConfig example_wire_fields_bytes
       = Inr (example_TapDSConfig\<lparr>TapDSConfig_XXX_unrecognized :=
                TapDSConfig_XXX_unrecognized example_TapDSConfig @ example_wire_fields_bytes\<rparr>)
   \<and> CommonExtensionConfig_Unmarshal opaque_codec opaque_codec example_CommonExtensionConfig
         example_wire_fields_bytes
       = Inr (example_CommonExtensionConfig\<lparr>XXX_unrecognized :=
                XXX_unrecognized example_CommonExtensionConfig @ example_wire_fields_bytes\<rparr>)
   \<and> \<not> CommonExtensionConfig_nil_wrapper
         (example_CommonExtensionConfig\<lparr>XXX_unrecognized :=
            XXX_unrecognized example_CommonExtensionConfig @ example_wire_fields_bytes\<rparr>)
   \<and> (\<exists>m. CommonExtensionConfig_Unmarshal opaque_codec opaque_codec CommonExtensionConfig_new
               example_wire_fields_bytes = Inr m
          \<and> CommonExtensionConfig_Marshal opaque_codec opaque_codec m = Inr example_wire_fields_bytes)
   \<and> (\<exists>bs. CommonExtensionConfig_Marshal opaque_codec opaque_codec
               (example_CommonExtensionConfig\<lparr>XXX_unrecognized := []\<rparr>) = Inr bs
          \<and> CommonExtensionConfig_Marshal opaque_codec opaque_codec example_CommonExtensionConfig
               = Inr (bs @ XXX_unrecognized example_CommonExtensionConfig))
   \<and> CommonExtensionConfig_Marshal opaque_codec opaque_codec
         \<lparr>ConfigType = None, XXX_unrecognized = example_wire_fields_bytes\<rparr>
       = Inr example_wire_fields_bytes"
proof -
  note f = example_wire_fields_facts
  let ?f = "Fixed64_field [0x29] [1, 2, 3, 4, 5, 6, 7, 8]"
  have nn: "\<not> CommonExtensionConfig_nil_wrapper example_CommonExtensionConfig"
    by (rule well_formed_not_nil_wrapper) (rule example_facts(6))
  have l: "length ([0x0a, 0x01, 0x41] @ wire_field_bytes ?f @ [0x4a, 0x01, 0x7a]) < 2 ^ 63"
    "length (wire_field_bytes ?f @ [0x4a, 0x01, 0x7a]) < 2 ^ 63"
    "length (wire_fields_bytes example_wire_fields) < 2 ^ 63"
    by (simp_all add: f(8,9))
  note t = C3_unknown_fields_are_kept [where f = ?f
      and pre = "[0x0a, 0x01, 0x41]" and post = "[0x4a, 0x01, 0x7a]" and fs = example_wire_fields
      and a = example_AdminConfig and cs = opaque_codec and t = example_TapDSConfig
      and tc = opaque_codec and cs' = opaque_codec and c = example_CommonExtensionConfig
      and d = example_wire_fields_bytes
      and c' = "example_CommonExtensionConfig\<lparr>XXX_unrecognized :=
            XXX_unrecognized example_CommonExtensionConfig @ example_wire_fields_bytes\<rparr>"
      and c'' = "\<lparr>ConfigType = None, XXX_unrecognized = example_wire_fields_bytes\<rparr>"]
  have e: "CommonExtensionConfig_ext_ok opaque_codec opaque_codec
      \<lparr>ConfigType = None, XXX_unrecognized = example_wire_fields_bytes\<rparr>"
    by (simp add: CommonExtensionConfig_ext_ok_def)
  from t f(1-7) l nn example_facts(4,7) have c:
    "skipCommon (wire_field_bytes ?f @ [0x4a, 0x01, 0x7a]) = Inr (length (wire_field_bytes ?f))"
    "CommonExtensionConfig_Unmarshal_loop opaque_codec opaque_codec example_CommonExtensionConfig
        ([0x0a, 0x01, 0x41] @ wire_field_bytes ?f @ [0x4a, 0x01, 0x7a]) (length [0x0a, 0x01, 0x41 :: byte])
       = CommonExtensionConfig_Unmarshal_loop opaque_codec opaque_codec
           (example_CommonExtensionConfig\<lparr>XXX_unrecognized :=
              XXX_unrecognized example_CommonExtensionConfig @ wire_field_bytes ?f\<rparr>)
           ([0x0a, 0x01, 0x41] @ wire_field_bytes ?f @ [0x4a, 0x01, 0x7a])
           (length [0x0a, 0x01, 0x41 :: byte] + length (wire_field_bytes ?f))"
    "AdminConfig_Unmarshal example_AdminConfig (wire_fields_bytes example_wire_fields)
       = Inr (example_AdminConfig\<lparr>AdminConfig_XXX_unrecognized :=
                AdminConfig_XXX_unrecognized example_AdminConfig @ wire_fields_bytes example_wire_fields\<rparr>)"
    "CommonExtensionConfig_TapDSConfig_Unmarshal opaque_codec example_TapDSConfig
         (wire_fields_bytes example_wire_fields)
       = Inr (example_TapDSConfig\<lparr>TapDSConfig_XXX_unrecognized :=
                TapDSConfig_XXX_unrecognized example_TapDSConfig @ wire_fields_bytes example_wire_fields\<rparr>)"
    "CommonExtensionConfig_Unmarshal opaque_codec opaque_codec example_CommonExtensionConfig
         (wire_fields_bytes example_wire_fields)
       = Inr (example_CommonExtensionConfig\<lparr>XXX_unrecognized :=
                XXX_unrecognized example_CommonExtensionConfig @ wire_fields_bytes example_wire_fields\<rparr>)"
    "\<exists>m. CommonExtensionConfig_Unmarshal opaque_codec opaque_codec CommonExtensionConfig_new
               (wire_fields_bytes example_wire_fields) = Inr m
          \<and> CommonExtensionConfig_Marshal opaque_codec opaque_codec m
               = Inr (wire_fields_bytes example_wire_fields)"
    "\<exists>bs. CommonExtensionConfig_Marshal opaque_codec opaque_codec
               (example_CommonExtensionConfig\<lparr>XXX_unrecognized := []\<rparr>) = Inr bs
          \<and> CommonExtensionConfig_Marshal opaque_codec opaque_codec example_CommonExtensionConfig
               = Inr (bs @ XXX_unrecognized example_CommonExtensionConfig)"
    by blast+
  from c(5) have u: "CommonExtensionConfig_Unmarshal opaque_codec opaque_codec example_CommonExtensionConfig
         example_wire_fields_bytes
       = Inr (example_CommonExtensionConfig\<lparr>XXX_unrecognized :=
                XXX_unrecognized example_CommonExtensionConfig @ example_wire_fields_bytes\<rparr>)"
    by (simp only: f(8))
  from t nn u have p: "\<not> CommonExtensionConfig_nil_wrapper
         (example_CommonExtensionConfig\<lparr>XXX_unrecognized :=
            XXX_unrecognized example_CommonExtensionConfig @ example_wire_fields_bytes\<rparr>)"
    by blast
  from c(1,2) have c12: "skipCommon ([0x29, 1, 2, 3, 4, 5, 6, 7, 8] @ [0x4a, 0x01, 0x7a]) = Inr 9"
    "CommonExtensionConfig_Unmarshal_loop opaque_codec opaque_codec example_CommonExtensionConfig
        ([0x0a, 0x01, 0x41] @ [0x29, 1, 2, 3, 4, 5, 6, 7, 8] @ [0x4a, 0x01, 0x7a]) 3
       = CommonExtensionConfig_Unmarshal_loop opaque_codec opaque_codec
           (example_CommonExtensionConfig\<lparr>XXX_unrecognized :=
              XXX_unrecognized example_CommonExtensionConfig @ [0x29, 1, 2, 3, 4, 5, 6, 7, 8]\<rparr>)
           ([0x0a, 0x01, 0x41] @ [0x29, 1, 2, 3, 4, 5, 6, 7, 8] @ [0x4a, 0x01, 0x7a]) 12"
    by (simp_all add: eval_nat_numeral)
  from c(3,4,6) have c346:
    "AdminConfig_Unmarshal example_AdminConfig example_wire_fields_bytes
       = Inr (example_AdminConfig\<lparr>AdminConfig_XXX_unrecognized :=
                AdminConfig_XXX_unrecognized example_AdminConfig @ example_wire_fields_bytes\<rparr>)"
    "CommonExtensionConfig_TapDSConfig_Unmarshal opaque_codec example_TapDSConfig example_wire_fields_bytes
       = Inr (example_TapDSConfig\<lparr>TapDSConfig_XXX_unrecognized :=
                TapDSConfig_XXX_unrecognized example_TapDSConfig @ example_wire_fields_bytes\<rparr>)"
    "\<exists>m. CommonExtensionConfig_Unmarshal opaque_codec opaque_codec CommonExtensionConfig_new
               example_wire_fields_bytes = Inr m
          \<and> CommonExtensionConfig_Marshal opaque_codec opaque_codec m = Inr example_wire_fields_bytes"
    by (simp_all only: f(8))
  have n': "CommonExtensionConfig_Unmarshal opaque_codec opaque_codec CommonExtensionConfig_new
            example_wire_fields_bytes
          = Inr \<lparr>ConfigType = None, XXX_unrecognized = example_wire_fields_bytes\<rparr>"
    by code_simp
  from t [THEN conjunct2, THEN conjunct2, THEN conjunct2, THEN conjunct2, THEN conjunct2,
      THEN conjunct2, THEN conjunct2, THEN conjunct2, THEN conjunct2, THEN conjunct2,
      THEN conjunct2, THEN conjunct1, THEN mp, OF conjI [OF n' e]]
  have "\<exists>bs. CommonExtensionConfig_Marshal opaque_codec opaque_codec
        (\<lparr>ConfigType = None, XXX_unrecognized = example_wire_fields_bytes\<rparr>\<lparr>XXX_unrecognized := []\<rparr>) = Inr bs
      \<and> CommonExtensionConfig_Marshal opaque_codec opaque_codec
            \<lparr>ConfigType = None, XXX_unrecognized = example_wire_fields_bytes\<rparr>
          = Inr (bs @ XXX_unrecognized \<lparr>ConfigType = None, XXX_unrecognized = example_wire_fields_bytes\<rparr>)"
    by simp
  moreover have "CommonExtensionConfig_Marshal opaque_codec opaque_codec
      \<lparr>ConfigType = None, XXX_unrecognized = [] :: byte list\<rparr> = Inr []"
    by code_simp
  ultimately have q: "CommonExtensionConfig_Marshal opaque_codec opaque_codec
         \<lparr>ConfigType = None, XXX_unrecognized = example_wire_fields_bytes\<rparr>
       = Inr example_wire_fields_bytes"
    by simp
  from f(1-8) l(1,3) nn example_facts(4,7) c12 c346 u p c(7) n' e q show ?thesis
    by (intro conjI)
qed

end
